theory Spec2Isabelle
  imports Complex_Main
begin

section \<open>The line-building environment \<open>MOTNDP\<close> of \<open>src/motndp/motndp.py\<close>\<close>

text \<open>
  The environment is a Python class whose methods mutate the attributes of \<open>self\<close>.
  The embedding passes the attributes around as a record and returns the updated record.
  Every exception the methods can raise is a value of type \<open>error\<close>; a call that raises
  yields the exception together with the attributes as the statements executed before
  the \<open>raise\<close> have left them.

  NumPy's \<open>int64\<close> coordinates and indices are modelled as \<open>int\<close> (no claim depends
  on their overflow). Its \<open>float64\<close> demand values are modelled as \<open>np_float\<close>: a real
  number, an infinity or not-a-number, with every arithmetic result rounded to the
  nearest \<open>float64\<close> value and overflowing to an infinity.
\<close>

subsection \<open>Exceptions\<close>

datatype error = AssertionError | IndexError | ValueError

subsection \<open>\<open>float64\<close> arithmetic\<close>

text \<open>A \<open>float64\<close> value: finite, an infinity or not-a-number. The sign of a zero is
  not kept (\<open>-0.0\<close> is \<open>Fin 0\<close>).\<close>

datatype np_float = Fin real | PosInf | NegInf | NaN

text \<open>Rounding to the nearest integer, a tie to the even one.\<close>

definition rne :: "real \<Rightarrow> int" where
  "rne q =
     (let f = \<lfloor>q\<rfloor>; d = q - of_int f
      in if d < 1 / 2 then f
         else if 1 / 2 < d then f + 1
         else if even f then f else f + 1)"

text \<open>The exponent of the unit in the last place at a positive magnitude \<open>a\<close>: 52 bits
  below the leading bit, and \<open>-1074\<close> for the subnormal numbers below \<open>2 ^ -1022\<close>.\<close>

definition f64_exponent :: "real \<Rightarrow> int" where
  "f64_exponent a = max \<lfloor>log 2 a\<rfloor> (- 1022) - 52"

text \<open>The multiple of that unit nearest to \<open>a\<close>.\<close>

definition f64_nearest :: "real \<Rightarrow> real" where
  "f64_nearest a =
     (let u = 2 powr of_int (f64_exponent a) in of_int (rne (a / u)) * u)"

text \<open>IEEE 754 rounding of a real result to \<open>float64\<close>, round-to-nearest-even: a
  magnitude that rounds to \<open>2 ^ 1024\<close> or more overflows to an infinity.\<close>

definition fl64 :: "real \<Rightarrow> np_float" where
  "fl64 x =
     (if x = 0 then Fin 0
      else
        let r = f64_nearest \<bar>x\<bar>
        in if 2 powr 1024 \<le> r then (if 0 < x then PosInf else NegInf)
           else Fin (if 0 < x then r else - r))"

text \<open>\<open>x + y\<close>, \<open>x * y\<close> and \<open>x / y\<close> on \<open>float64\<close> scalars. A zero divisor gives
  \<open>inf\<close>, \<open>-inf\<close> or \<open>nan\<close> (with a warning), never an exception.\<close>

fun np_add :: "np_float \<Rightarrow> np_float \<Rightarrow> np_float" where
  "np_add (Fin x) (Fin y) = fl64 (x + y)"
| "np_add NaN b = NaN"
| "np_add a NaN = NaN"
| "np_add PosInf NegInf = NaN"
| "np_add NegInf PosInf = NaN"
| "np_add PosInf b = PosInf"
| "np_add a PosInf = PosInf"
| "np_add NegInf b = NegInf"
| "np_add a NegInf = NegInf"

fun np_times :: "np_float \<Rightarrow> np_float \<Rightarrow> np_float" where
  "np_times (Fin x) (Fin y) = fl64 (x * y)"
| "np_times NaN b = NaN"
| "np_times a NaN = NaN"
| "np_times PosInf (Fin y) = (if y = 0 then NaN else if 0 < y then PosInf else NegInf)"
| "np_times NegInf (Fin y) = (if y = 0 then NaN else if 0 < y then NegInf else PosInf)"
| "np_times (Fin x) PosInf = (if x = 0 then NaN else if 0 < x then PosInf else NegInf)"
| "np_times (Fin x) NegInf = (if x = 0 then NaN else if 0 < x then NegInf else PosInf)"
| "np_times PosInf PosInf = PosInf"
| "np_times PosInf NegInf = NegInf"
| "np_times NegInf PosInf = NegInf"
| "np_times NegInf NegInf = PosInf"

fun np_div :: "np_float \<Rightarrow> np_float \<Rightarrow> np_float" where
  "np_div (Fin x) (Fin y) =
     (if y \<noteq> 0 then fl64 (x / y)
      else if 0 < x then PosInf
      else if x < 0 then NegInf
      else NaN)"
| "np_div NaN b = NaN"
| "np_div a NaN = NaN"
| "np_div (Fin x) PosInf = Fin 0"
| "np_div (Fin x) NegInf = Fin 0"
| "np_div PosInf (Fin y) = (if 0 \<le> y then PosInf else NegInf)"
| "np_div NegInf (Fin y) = (if 0 \<le> y then NegInf else PosInf)"
| "np_div PosInf PosInf = NaN"
| "np_div PosInf NegInf = NaN"
| "np_div NegInf PosInf = NaN"
| "np_div NegInf NegInf = NaN"


subsection \<open>NumPy indexing and arrays\<close>

text \<open>The position that index \<open>i\<close> addresses in an array of length \<open>n\<close>: a negative
  index counts from the end, an index outside \<open>[-n, n)\<close> raises \<open>IndexError\<close>.\<close>

definition np_pos :: "nat \<Rightarrow> int \<Rightarrow> error + nat" where
  "np_pos n i =
     (let j = (if i < 0 then i + int n else i)
      in if 0 \<le> j \<and> j < int n then Inr (nat j) else Inl IndexError)"

text \<open>\<open>xs[i]\<close>.\<close>

definition np_getitem :: "'a list \<Rightarrow> int \<Rightarrow> error + 'a" where
  "np_getitem xs i =
     (case np_pos (length xs) i of Inl err \<Rightarrow> Inl err | Inr j \<Rightarrow> Inr (xs ! j))"

text \<open>\<open>xs[i] = v\<close>.\<close>

definition np_setitem :: "'a list \<Rightarrow> int \<Rightarrow> 'a \<Rightarrow> error + 'a list" where
  "np_setitem xs i v =
     (case np_pos (length xs) i of Inl err \<Rightarrow> Inl err | Inr j \<Rightarrow> Inr (xs[j := v]))"

text \<open>\<open>np.isin(xs, ys)\<close>: elementwise membership of \<open>xs\<close> in \<open>ys\<close>.\<close>

definition np_isin :: "int list \<Rightarrow> int list \<Rightarrow> bool list" where
  "np_isin xs ys = map (\<lambda>x. x \<in> set ys) xs"

text \<open>\<open>a & b\<close> on boolean arrays of one shape.\<close>

definition np_and :: "bool list \<Rightarrow> bool list \<Rightarrow> bool list" where
  "np_and a b = map2 (\<and>) a b"

text \<open>
  An array of demand values is modelled by its data in row-major order. \<open>a * b\<close>
  multiplies two arrays of one shape elementwise; arrays of different sizes are a
  \<open>ValueError\<close> (NumPy's broadcasting between unequal shapes is not modelled: the mask
  of the Grid/Demand Model has the shape of the OD matrices). \<open>a.sum()\<close> adds all
  entries, here from left to right starting at \<open>0.0\<close>; NumPy adds in blocks, in an
  order of its own choice.
\<close>

type_synonym ndarray = "np_float list"

definition np_mul :: "ndarray \<Rightarrow> ndarray \<Rightarrow> error + ndarray" where
  "np_mul a b =
     (if length a = length b then Inr (map2 np_times a b) else Inl ValueError)"

definition np_sum :: "ndarray \<Rightarrow> np_float" where
  "np_sum a = foldl np_add (Fin 0) a"

subsection \<open>The Grid/Demand Model (\<open>City\<close>)\<close>

text \<open>
  Class \<open>City\<close> (\<open>motndp/city.py\<close>) is not part of the sources at hand; the environment
  only reads these attributes and calls these methods of it, which are therefore
  parameters of the model:
  \<^item> \<open>grid_x_size\<close>, \<open>grid_y_size\<close>, \<open>grid_size\<close>: the grid's dimensions;
  \<^item> \<open>grid_to_vector\<close>: coordinates to linear index; the source calls it on an array of
    coordinates, the model holds its action on one coordinate and maps it over arrays;
  \<^item> \<open>satisfied_od_mask\<close>: the mask of OD pairs a segment satisfies;
  \<^item> \<open>group_od_mx\<close>: the list of per-group OD matrices, \<open>None\<close> when no groups were
    configured;
  \<^item> \<open>groups\<close>: the array of groups, of which only \<open>shape[0]\<close> is read.
\<close>

record City =
  grid_x_size :: int
  grid_y_size :: int
  grid_size :: nat
  grid_to_vector :: "int \<times> int \<Rightarrow> int"
  satisfied_od_mask :: "int list \<Rightarrow> ndarray"
  group_od_mx :: "ndarray list option"
  groups :: "int list"






subsection \<open>Episode state\<close>

text \<open>The attributes of a \<open>MOTNDP\<close> instance. \<open>np_random\<close> is the state of the random
  generator that \<open>gym.Env\<close> keeps; its type is a parameter.\<close>

record 'g MOTNDP =
  city :: City
  nr_stations :: int
  stations_placed :: int
  covered_cells_vid :: "int list"
  covered_cells_gid :: "(int \<times> int) list"
  covered_segments :: "int list list"
  action_mask :: "int list"
  agent_location :: "int \<times> int"
  agent_location_vid :: int
  agent_location_vector :: "real list"
  np_random :: 'g

text \<open>Attributes that \<open>__init__\<close> computes once from the city and never changes:
  \<open>observation_space.n\<close>, \<open>nr_groups\<close> and the table \<open>_action_to_direction\<close>.\<close>

definition observation_space_n :: "'g MOTNDP \<Rightarrow> nat" where
  "observation_space_n e = grid_size (city e)"

definition nr_groups :: "'g MOTNDP \<Rightarrow> nat" where
  "nr_groups e = length (groups (city e))"

definition action_to_direction :: "(int \<times> int) list" where
  "action_to_direction =
     [(-1, 0), (-1, 1), (0, 1), (1, 1), (1, 0), (1, -1), (0, -1), (-1, -1)]"

text \<open>\<open>__init__\<close>: the state before the first \<open>reset\<close>. The three location attributes
  do not exist yet in the source; the record holds placeholders that \<open>reset\<close>
  overwrites.\<close>

definition init :: "City \<Rightarrow> int \<Rightarrow> 'g \<Rightarrow> 'g MOTNDP" where
  "init c n g =
     \<lparr>city = c, nr_stations = n, stations_placed = 0, covered_cells_vid = [],
      covered_cells_gid = [], covered_segments = [], action_mask = replicate 8 1,
      agent_location = (0, 0), agent_location_vid = 0, agent_location_vector = [],
      np_random = g\<rparr>"

text \<open>The dictionaries returned by \<open>_get_obs\<close> and \<open>_get_info\<close>.\<close>

record observation =
  location :: "int \<times> int"
  location_vid :: int
  location_vector :: "real list"

record info =
  segments :: "int list list"
  info_action_mask :: "int list"

definition get_obs :: "'g MOTNDP \<Rightarrow> observation" where
  "get_obs e =
     \<lparr>location = agent_location e, location_vid = agent_location_vid e,
      location_vector = agent_location_vector e\<rparr>"

definition get_info :: "'g MOTNDP \<Rightarrow> info" where
  "get_info e = \<lparr>segments = covered_segments e, info_action_mask = action_mask e\<rparr>"

subsection \<open>\<open>_calculate_reward\<close>\<close>

text \<open>The \<open>for i, g_od in enumerate(...)\<close> loop: \<open>i\<close> is the running index, the pair
  holds the arrays \<open>sat_group_ods\<close> and \<open>sat_group_ods_pct\<close>, written at \<open>i\<close>.\<close>

fun reward_loop ::
  "nat \<Rightarrow> ndarray list \<Rightarrow> ndarray \<Rightarrow> ndarray \<times> ndarray
     \<Rightarrow> error + (ndarray \<times> ndarray)" where
  "reward_loop i [] sat_od_mask acc = Inr acc"
| "reward_loop i (g_od # rest) sat_od_mask (sat_group_ods, sat_group_ods_pct) =
     (case np_mul g_od sat_od_mask of
        Inl err \<Rightarrow> Inl err
      | Inr masked \<Rightarrow>
          let sat' = sat_group_ods[i := np_sum masked];
              pct' = sat_group_ods_pct[i := np_div (sat' ! i) (np_sum g_od)]
          in reward_loop (Suc i) rest sat_od_mask (sat', pct'))"

text \<open>\<open>_calculate_reward\<close> reads the attributes and changes none of them.\<close>

definition calculate_reward ::
  "'g MOTNDP \<Rightarrow> int list \<Rightarrow> bool \<Rightarrow> error + ndarray" where
  "calculate_reward e segment use_pct =
     (case group_od_mx (city e) of
        None \<Rightarrow> Inl AssertionError
      | Some mx \<Rightarrow>
          if mx = [] then Inl AssertionError
          else if segment \<in> set (covered_segments e)
            then Inr (replicate (length mx) (Fin 0))
          else
            (case reward_loop 0 mx (satisfied_od_mask (city e) segment)
                    (replicate (length mx) (Fin 0), replicate (length mx) (Fin 0)) of
               Inl err \<Rightarrow> Inl err
             | Inr (sat_group_ods, sat_group_ods_pct) \<Rightarrow>
                 Inr (if use_pct then sat_group_ods_pct else sat_group_ods)))"

subsection \<open>\<open>_update_agent_location\<close> and \<open>_update_action_mask\<close>\<close>

text \<open>The location, its index and a vector of zeros are stored before the entry at
  the index is set; when that assignment raises \<open>IndexError\<close> they stay stored.\<close>

definition update_agent_location ::
  "'g MOTNDP \<Rightarrow> int \<times> int \<Rightarrow> (error \<times> 'g MOTNDP) + 'g MOTNDP" where
  "update_agent_location e new_location =
     (let vid = grid_to_vector (city e) new_location;
          e1 = e\<lparr>agent_location := new_location, agent_location_vid := vid,
                 agent_location_vector := replicate (observation_space_n e) 0\<rparr>
      in case np_setitem (agent_location_vector e1) vid 1 of
           Inl err \<Rightarrow> Inl (err, e1)
         | Inr vec \<Rightarrow> Inr (e1\<lparr>agent_location_vector := vec\<rparr>))"

text \<open>The parameter \<open>prev_action\<close> is unused in the source as well.\<close>

definition update_action_mask ::
  "'g MOTNDP \<Rightarrow> int \<times> int \<Rightarrow> int option \<Rightarrow> 'g MOTNDP" where
  "update_action_mask e loc prev_action =
     (let possible_locations =
            map (\<lambda>d. (fst loc + fst d, snd loc + snd d)) action_to_direction;
          nonneg = map (\<lambda>p. 0 \<le> fst p \<and> 0 \<le> snd p) possible_locations;
          below_x = map (\<lambda>p. fst p < grid_x_size (city e)) possible_locations;
          below_y = map (\<lambda>p. snd p < grid_y_size (city e)) possible_locations;
          unvisited =
            map Not (np_isin (map (grid_to_vector (city e)) possible_locations)
                       (covered_cells_vid e));
          mask = np_and (np_and (np_and nonneg below_x) below_y) unvisited
      in e\<lparr>action_mask := map of_bool mask\<rparr>)"

subsection \<open>\<open>reset\<close>\<close>

text \<open>The argument \<open>loc\<close>: \<open>None\<close>, a coordinate pair (a tuple) or an array of two
  coordinates. \<open>if loc:\<close> takes its truth value: \<open>None\<close> is false, a tuple of two is
  true, and the truth value of an array of two elements is a \<open>ValueError\<close>.\<close>

datatype py_loc = PyNone | PyTuple "int \<times> int" | PyArray "int \<times> int"

text \<open>The random generator of \<open>gym.Env\<close>, outside the sources: \<open>seeded s\<close> is the
  generator that \<open>super().reset(seed=s)\<close> installs, \<open>integers g low high\<close> a draw with
  the generator's next state. With \<open>seed=None\<close> the generator in place is kept.
  \<open>integers\<close> raises \<open>ValueError\<close> unless \<open>low < high\<close>.\<close>

record 'g rng =
  seeded :: "nat \<Rightarrow> 'g"
  integers :: "'g \<Rightarrow> int \<Rightarrow> int \<Rightarrow> int \<times> 'g"

text \<open>The statements of \<open>reset\<close> after the agent location is set.\<close>

definition reset_tail :: "'g MOTNDP \<Rightarrow> 'g MOTNDP \<times> observation \<times> info" where
  "reset_tail e =
     (let e1 = e\<lparr>stations_placed := 1,
                  covered_cells_vid := [grid_to_vector (city e) (agent_location e)],
                  covered_cells_gid := [agent_location e],
                  covered_segments := []\<rparr>;
          e2 = update_action_mask e1 (agent_location e1) None
      in (e2, get_obs e2, get_info e2))"

text \<open>A call of \<open>reset\<close>: \<open>Inr\<close> of the new attributes and the returned pair, or \<open>Inl\<close>
  of the exception and the attributes at the moment it is raised.\<close>

definition reset_call ::
  "'g rng \<Rightarrow> 'g MOTNDP \<Rightarrow> nat option \<Rightarrow> py_loc
     \<Rightarrow> (error \<times> 'g MOTNDP) + ('g MOTNDP \<times> observation \<times> info)" where
  "reset_call G e seed loc =
     (let e0 = (case seed of None \<Rightarrow> e | Some s \<Rightarrow> e\<lparr>np_random := seeded G s\<rparr>)
      in case loc of
           PyArray a \<Rightarrow> Inl (ValueError, e0)
         | PyTuple t \<Rightarrow>
             (case update_agent_location e0 (fst t, snd t) of
                Inl raised \<Rightarrow> Inl raised
              | Inr e1 \<Rightarrow> Inr (reset_tail e1))
         | PyNone \<Rightarrow>
             if grid_x_size (city e0) \<le> 0 then Inl (ValueError, e0)
             else
               let (agent_x, g1) = integers G (np_random e0) 0 (grid_x_size (city e0));
                   ex = e0\<lparr>np_random := g1\<rparr>
               in if grid_y_size (city ex) \<le> 0 then Inl (ValueError, ex)
                  else
                    let (agent_y, g2) = integers G g1 0 (grid_y_size (city ex));
                        ey = ex\<lparr>np_random := g2\<rparr>
                    in case update_agent_location ey (agent_x, agent_y) of
                         Inl raised \<Rightarrow> Inl raised
                       | Inr e1 \<Rightarrow> Inr (reset_tail e1))"

text \<open>What the caller of \<open>reset\<close> receives, the exception or the new attributes with
  the returned pair, and the attributes that the call leaves in either case.\<close>

definition reset ::
  "'g rng \<Rightarrow> 'g MOTNDP \<Rightarrow> nat option \<Rightarrow> py_loc
     \<Rightarrow> error + ('g MOTNDP \<times> observation \<times> info)" where
  "reset G e seed loc =
     (case reset_call G e seed loc of Inl raised \<Rightarrow> Inl (fst raised) | Inr r \<Rightarrow> Inr r)"

definition after_reset ::
  "'g rng \<Rightarrow> 'g MOTNDP \<Rightarrow> nat option \<Rightarrow> py_loc \<Rightarrow> 'g MOTNDP" where
  "after_reset G e seed loc =
     (case reset_call G e seed loc of Inl raised \<Rightarrow> snd raised | Inr r \<Rightarrow> fst r)"

subsection \<open>\<open>step\<close>\<close>

text \<open>A call of \<open>step\<close>, in the same form.\<close>

definition step_call ::
  "'g MOTNDP \<Rightarrow> int
     \<Rightarrow> (error \<times> 'g MOTNDP)
        + ('g MOTNDP \<times> observation \<times> ndarray \<times> bool \<times> bool \<times> info)" where
  "step_call e action =
     (case np_getitem action_to_direction action of
        Inl err \<Rightarrow> Inl (err, e)
      | Inr direction \<Rightarrow>
          let new_location =
                (fst (agent_location e) + fst direction,
                 snd (agent_location e) + snd direction);
              e1 = e\<lparr>stations_placed := stations_placed e + 1\<rparr>;
              from_idx = grid_to_vector (city e1) (agent_location e1);
              to_idx = grid_to_vector (city e1) new_location
          in case calculate_reward e1 [from_idx, to_idx] True of
               Inl err \<Rightarrow> Inl (err, e1)
             | Inr reward \<Rightarrow>
                 let e2 = e1\<lparr>covered_segments :=
                               covered_segments e1 @ [[from_idx, to_idx], [to_idx, from_idx]],
                             covered_cells_vid := covered_cells_vid e1 @ [to_idx],
                             covered_cells_gid := covered_cells_gid e1 @ [new_location]\<rparr>
                 in case update_agent_location e2 new_location of
                      Inl raised \<Rightarrow> Inl raised
                    | Inr e3 \<Rightarrow>
                        let e4 = update_action_mask e3 (agent_location e3) (Some action);
                            terminated =
                              (stations_placed e4 \<ge> nr_stations e4
                               \<or> sum_list (action_mask e4) = 0)
                        in Inr (e4, get_obs e4, reward, terminated, False, get_info e4))"

definition step ::
  "'g MOTNDP \<Rightarrow> int
     \<Rightarrow> error + ('g MOTNDP \<times> observation \<times> ndarray \<times> bool \<times> bool \<times> info)" where
  "step e action =
     (case step_call e action of Inl raised \<Rightarrow> Inl (fst raised) | Inr r \<Rightarrow> Inr r)"

definition after_step :: "'g MOTNDP \<Rightarrow> int \<Rightarrow> 'g MOTNDP" where
  "after_step e action =
     (case step_call e action of Inl raised \<Rightarrow> snd raised | Inr r \<Rightarrow> fst r)"

subsection \<open>Episodes\<close>

text \<open>An episode is driven from outside: after \<open>reset\<close>, the caller supplies one
  action per \<open>step\<close>. \<open>episode e as\<close> is the list of states the environment goes
  through from \<open>e\<close> under the actions \<open>as\<close>, \<open>e\<close> first; it stops at the first call
  that raises.\<close>

fun episode :: "'g MOTNDP \<Rightarrow> int list \<Rightarrow> error + 'g MOTNDP list" where
  "episode e [] = Inr [e]"
| "episode e (a # as) =
     (case step e a of
        Inl err \<Rightarrow> Inl err
      | Inr r \<Rightarrow>
          (case episode (fst r) as of
             Inl err \<Rightarrow> Inl err
           | Inr es \<Rightarrow> Inr (e # es)))"

text \<open>An action is legal in a state when the current mask holds 1 at it
  (\<open>action_mask[action] == 1\<close>); \<open>legal_actions e as\<close> says that each action of \<open>as\<close> is
  legal in the state in which it is supplied.\<close>

definition legal :: "'g MOTNDP \<Rightarrow> int \<Rightarrow> bool" where
  "legal e a = (np_getitem (action_mask e) a = Inr 1)"

fun legal_actions :: "'g MOTNDP \<Rightarrow> int list \<Rightarrow> bool" where
  "legal_actions e [] = True"
| "legal_actions e (a # as) =
     (legal e a \<and>
      (case step e a of Inl err \<Rightarrow> True | Inr r \<Rightarrow> legal_actions (fst r) as))"

subsection \<open>Concrete cities\<close>

text \<open>A grid of two rows and two columns, cells numbered row by row, with two demand
  groups. The OD matrices are 4 by 4, given row by row: the first has total demand 10,
  of which 4 lie on the pair of cells 0 and 1.\<close>

definition demo_od1 :: ndarray where
  "demo_od1 = map Fin [0, 4, 0, 0,  0, 0, 0, 6,  0, 0, 0, 0,  0, 0, 0, 0]"

definition demo_od2 :: ndarray where
  "demo_od2 = map Fin [0, 1, 0, 0,  1, 0, 0, 0,  0, 0, 2, 0,  0, 0, 0, 0]"

definition demo_mask :: "int list \<Rightarrow> ndarray" where
  "demo_mask seg =
     map Fin
       (if seg = [0, 1] \<or> seg = [1, 0]
          then [0, 1, 0, 0,  1, 0, 0, 0,  0, 0, 0, 0,  0, 0, 0, 0]
        else if seg = [1, 3] \<or> seg = [3, 1]
          then [0, 0, 0, 0,  0, 0, 0, 1,  0, 0, 0, 0,  0, 1, 0, 0]
        else replicate 16 0)"

definition demo_city :: City where
  "demo_city =
     \<lparr>grid_x_size = 2, grid_y_size = 2, grid_size = 4,
      grid_to_vector = (\<lambda>p. fst p * 2 + snd p),
      satisfied_od_mask = demo_mask,
      group_od_mx = Some [demo_od1, demo_od2],
      groups = [0, 1]\<rparr>"

text \<open>A stand-in generator: its state is a counter.\<close>

definition demo_rng :: "nat rng" where
  "demo_rng =
     \<lparr>seeded = (\<lambda>s. s),
      integers = (\<lambda>g low high. (low + int g mod (high - low), Suc g))\<rparr>"

text \<open>The state after \<open>reset(loc=(0, 0))\<close> on this city with a budget of 4 stations.\<close>

definition demo_start :: "nat MOTNDP" where
  "demo_start =
     \<lparr>city = demo_city, nr_stations = 4, stations_placed = 1,
      covered_cells_vid = [0], covered_cells_gid = [(0, 0)], covered_segments = [],
      action_mask = [0, 0, 1, 1, 1, 0, 0, 0],
      agent_location = (0, 0), agent_location_vid = 0,
      agent_location_vector = [1, 0, 0, 0], np_random = 0\<rparr>"

text \<open>The state after \<open>step(2)\<close> (walk right) from there.\<close>

definition demo_second :: "nat MOTNDP" where
  "demo_second =
     \<lparr>city = demo_city, nr_stations = 4, stations_placed = 2,
      covered_cells_vid = [0, 1], covered_cells_gid = [(0, 0), (0, 1)],
      covered_segments = [[0, 1], [1, 0]],
      action_mask = [0, 0, 0, 0, 1, 1, 0, 0],
      agent_location = (0, 1), agent_location_vid = 1,
      agent_location_vector = [0, 1, 0, 0], np_random = 0\<rparr>"

text \<open>The state after \<open>reset(loc=(1, 1))\<close>, the bottom right cell, and the attributes
  that \<open>step(4)\<close> (walk down, out of the grid) leaves there when it raises.\<close>

definition demo_corner :: "nat MOTNDP" where
  "demo_corner =
     \<lparr>city = demo_city, nr_stations = 4, stations_placed = 1,
      covered_cells_vid = [3], covered_cells_gid = [(1, 1)], covered_segments = [],
      action_mask = [1, 0, 0, 0, 0, 0, 1, 1],
      agent_location = (1, 1), agent_location_vid = 3,
      agent_location_vector = [0, 0, 0, 1], np_random = 0\<rparr>"

definition demo_fallen :: "nat MOTNDP" where
  "demo_fallen =
     \<lparr>city = demo_city, nr_stations = 4, stations_placed = 2,
      covered_cells_vid = [3, 5], covered_cells_gid = [(1, 1), (2, 1)],
      covered_segments = [[3, 5], [5, 3]],
      action_mask = [1, 0, 0, 0, 0, 0, 1, 1],
      agent_location = (2, 1), agent_location_vid = 5,
      agent_location_vector = [0, 0, 0, 0], np_random = 0\<rparr>"





section \<open>Properties\<close>

subsection \<open>Rounding to \<open>float64\<close>\<close>

lemma rne_of_int [simp]: "rne (of_int n) = n"
  by (simp add: rne_def)











lemma fl64_zero: "fl64 0 = Fin 0"
  by (simp add: fl64_def)

lemma fl64_pos:
  assumes "0 < x"
  shows "fl64 x = (if 2 powr 1024 \<le> f64_nearest x then PosInf else Fin (f64_nearest x))"
  using assms by (simp add: fl64_def Let_def)


text \<open>Numbers \<open>m * 2 ^ e\<close> with a significand below \<open>2 ^ 53\<close> are left as they are.\<close>

lemma f64_nearest_exact:
  assumes m: "0 < m" "m < 2 ^ 53" and e: "- 1074 \<le> e"
    and x: "x = of_int m * 2 powr of_int e"
  shows "f64_nearest x = x"
proof -
  have pos: "0 < x" using m(1) x by simp
  have "x < of_int (2 ^ 53) * 2 powr of_int e"
    unfolding x using m(2) by (intro mult_strict_right_mono) (simp_all only: of_int_less_iff powr_gt_zero)
  also have "\<dots> = 2 powr of_int (e + 53)" by (simp add: powr_add)
  finally have "x < 2 powr of_int (e + 53)" .
  then have "log 2 x < of_int (e + 53)"
    using pos by (simp add: log_less_iff)
  then have "\<lfloor>log 2 x\<rfloor> < e + 53" by (simp add: floor_less_iff)
  then have le: "f64_exponent x \<le> e" using e unfolding f64_exponent_def by linarith
  define E where "E = f64_exponent x"
  define d where "d = nat (e - E)"
  have e_eq: "e = E + int d" using le by (simp add: d_def E_def)
  have "x = of_int m * (2 powr of_int E * 2 powr of_int (int d))"
    unfolding x e_eq by (simp add: powr_add)
  then have "x / 2 powr of_int E = of_int m * 2 powr of_int (int d)"
    by simp
  also have "\<dots> = of_int (m * 2 ^ d)" by (simp add: powr_realpow)
  finally have q: "x / 2 powr of_int E = of_int (m * 2 ^ d)" .
  have "f64_nearest x = of_int (rne (x / 2 powr of_int E)) * 2 powr of_int E"
    by (simp add: f64_nearest_def Let_def E_def)
  also have "\<dots> = of_int (m * 2 ^ d) * 2 powr of_int E"
    unfolding q rne_of_int ..
  also have "\<dots> = x" using q by (simp add: field_simps)
  finally show ?thesis .
qed

lemma fl64_exact:
  assumes "0 < m" "m < 2 ^ 53" and "- 1074 \<le> e" and "e \<le> 971"
  shows "fl64 (of_int m * 2 powr of_int e) = Fin (of_int m * 2 powr of_int e)"
proof -
  let ?x = "of_int m * 2 powr of_int e :: real"
  have pos: "0 < ?x" using assms(1) by simp
  have "?x < of_int (2 ^ 53) * 2 powr of_int e"
    using assms(2) by (intro mult_strict_right_mono) (simp_all only: of_int_less_iff powr_gt_zero)
  also have "\<dots> = 2 powr of_int (e + 53)" by (simp add: powr_add)
  also have "\<dots> \<le> 2 powr 1024" using assms(4) by (intro powr_mono) simp_all
  finally have "?x < 2 powr 1024" .
  then show ?thesis
    using pos f64_nearest_exact [OF assms(1,2,3) refl] by (simp add: fl64_pos)
qed

lemma fl64_numeral:
  assumes "(numeral w :: int) < 2 ^ 53"
  shows "fl64 (numeral w) = Fin (numeral w)"
  using fl64_exact [of "numeral w" 0] assms by simp

lemma fl64_one: "fl64 1 = Fin 1"
  using fl64_exact [of 1 0] by simp


lemma fl64_two_fifths: "fl64 (2 / 5) = Fin (3602879701896397 / 9007199254740992)"
proof -
  have "\<lfloor>log 2 (2 / 5 :: real)\<rfloor> = - 2"
    by (subst floor_log_eq_powr_iff) (simp_all add: powr_minus)
  then have ex: "f64_exponent (2 / 5) = - 54" by (simp add: f64_exponent_def)
  have u: "(2::real) powr of_int (- 54) = 1 / 2 ^ 54"
    by (simp add: powr_minus_divide)
  have "f64_nearest (2 / 5) = 3602879701896397 / 9007199254740992"
    unfolding f64_nearest_def Let_def ex u by (simp add: rne_def Let_def)
  then show ?thesis by (simp add: fl64_pos)
qed

lemma fl64_half: "fl64 (1 / 2) = Fin (1 / 2)"
  using fl64_exact [of 1 "- 1"] by (simp add: powr_minus_divide)




lemmas float_eval =
  fl64_zero fl64_one fl64_numeral fl64_half fl64_two_fifths


subsection \<open>Unfolding and evaluation\<close>

lemmas demo_defs =
  demo_od1_def demo_od2_def demo_mask_def demo_city_def demo_rng_def demo_start_def
  demo_second_def demo_corner_def demo_fallen_def

lemmas model_defs =
  reset_def reset_call_def after_reset_def reset_tail_def update_agent_location_def
  update_action_mask_def np_setitem_def np_getitem_def np_pos_def np_isin_def np_and_def
  np_mul_def np_sum_def observation_space_n_def nr_groups_def action_to_direction_def
  init_def get_obs_def get_info_def step_def step_call_def after_step_def
  calculate_reward_def legal_def Let_def float_eval

lemma demo_reset:
  "reset demo_rng (init demo_city 4 0) None (PyTuple (0, 0)) =
     Inr (demo_start, get_obs demo_start, get_info demo_start)"
  by (simp add: demo_defs model_defs numeral_eq_Suc)

subsection \<open>The action mask\<close>

lemma length_action_to_direction: "length action_to_direction = 8"
  by (simp add: action_to_direction_def)

lemma action_mask_update_nth:
  assumes "k < 8"
  shows "action_mask (update_action_mask e loc pa) ! k =
     of_bool (0 \<le> fst loc + fst (action_to_direction ! k)
       \<and> 0 \<le> snd loc + snd (action_to_direction ! k)
       \<and> fst loc + fst (action_to_direction ! k) < grid_x_size (city e)
       \<and> snd loc + snd (action_to_direction ! k) < grid_y_size (city e)
       \<and> grid_to_vector (city e)
            (fst loc + fst (action_to_direction ! k), snd loc + snd (action_to_direction ! k))
          \<notin> set (covered_cells_vid e))"
  using assms
  by (simp add: update_action_mask_def Let_def np_and_def np_isin_def
      length_action_to_direction)

lemma length_action_mask_update:
  "length (action_mask (update_action_mask e loc pa)) = 8"
  by (simp add: update_action_mask_def Let_def np_and_def np_isin_def
      length_action_to_direction)

lemma action_mask_update_set:
  "set (action_mask (update_action_mask e loc pa)) \<subseteq> {0, 1}"
  by (auto simp add: update_action_mask_def Let_def)

lemma update_action_mask_fields:
  "city (update_action_mask e loc pa) = city e"
  "nr_stations (update_action_mask e loc pa) = nr_stations e"
  "stations_placed (update_action_mask e loc pa) = stations_placed e"
  "covered_cells_vid (update_action_mask e loc pa) = covered_cells_vid e"
  "covered_cells_gid (update_action_mask e loc pa) = covered_cells_gid e"
  "covered_segments (update_action_mask e loc pa) = covered_segments e"
  "agent_location (update_action_mask e loc pa) = agent_location e"
  "agent_location_vid (update_action_mask e loc pa) = agent_location_vid e"
  "agent_location_vector (update_action_mask e loc pa) = agent_location_vector e"
  "np_random (update_action_mask e loc pa) = np_random e"
  by (simp_all add: update_action_mask_def Let_def)

text \<open>The mask depends on the state through the city and the covered cells only.\<close>

lemma action_mask_update_cong:
  assumes "city e = city e'" and "covered_cells_vid e = covered_cells_vid e'"
  shows "action_mask (update_action_mask e loc pa) =
         action_mask (update_action_mask e' loc pa')"
  using assms by (simp add: update_action_mask_def Let_def)

lemma sum_list_01_zero:
  fixes xs :: "int list"
  assumes "set xs \<subseteq> {0, 1}"
  shows "sum_list xs = 0 \<longleftrightarrow> (\<forall>x \<in> set xs. x = 0)"
proof -
  have "\<forall>x \<in> set xs. 0 \<le> x" using assms by auto
  then show ?thesis by (simp add: sum_list_nonneg_eq_0_iff)
qed

text \<open>
  Claim C5. For every agent location and every list of covered cells, the recomputed
  mask has 8 entries, and for each of the 8 directions its entry is 1 if and only if
  the candidate coordinate (the location plus the direction's displacement) has both
  coordinates at least 0, its row coordinate below \<open>grid_x_size\<close>, its column
  coordinate below \<open>grid_y_size\<close>, and its linear index is not in
  \<open>covered_cells_vid\<close>; the entry is 0 otherwise.
\<close>

theorem update_action_mask_entry:
  assumes "k < 8"
    and "cand = (fst loc + fst (action_to_direction ! k),
                 snd loc + snd (action_to_direction ! k))"
    and "ok = (0 \<le> fst cand \<and> 0 \<le> snd cand
               \<and> fst cand < grid_x_size (city e) \<and> snd cand < grid_y_size (city e)
               \<and> grid_to_vector (city e) cand \<notin> set (covered_cells_vid e))"
  shows "length (action_mask (update_action_mask e loc pa)) = 8
    \<and> (action_mask (update_action_mask e loc pa) ! k = 1 \<longleftrightarrow> ok)
    \<and> (action_mask (update_action_mask e loc pa) ! k = 0 \<longleftrightarrow> \<not> ok)"
  using assms
  by (simp add: action_mask_update_nth length_action_mask_update del: of_bool_eq_iff)

theorem update_action_mask_entry_witness:
  "length (action_mask (update_action_mask demo_start (0, 0) None)) = 8
    \<and> action_mask (update_action_mask demo_start (0, 0) None) ! 3 = 1
    \<and> action_mask (update_action_mask demo_start (0, 0) None) ! 6 \<noteq> 1
    \<and> action_mask (update_action_mask demo_start (0, 0) None) ! 6 = 0"
  using update_action_mask_entry [of 3 "(1, 1)" "(0, 0)" True demo_start None]
    update_action_mask_entry [of 6 "(0, -1)" "(0, 0)" False demo_start None]
  by (simp add: demo_defs action_to_direction_def)

subsection \<open>What a returning \<open>step\<close> has done\<close>

lemma update_agent_location_Inr:
  assumes "update_agent_location e nl = Inr e'"
  shows "\<exists>j. np_pos (grid_size (city e)) (grid_to_vector (city e) nl) = Inr j
           \<and> e' = e\<lparr>agent_location := nl,
                     agent_location_vid := grid_to_vector (city e) nl,
                     agent_location_vector := (replicate (grid_size (city e)) 0)[j := 1]\<rparr>"
  using assms
  by (auto simp add: update_agent_location_def np_setitem_def observation_space_n_def Let_def
      split: sum.splits)

lemma update_agent_location_Inl:
  assumes "update_agent_location e nl = Inl (err, e')"
  shows "err = IndexError
    \<and> np_pos (grid_size (city e)) (grid_to_vector (city e) nl) = Inl IndexError
    \<and> e' = e\<lparr>agent_location := nl,
               agent_location_vid := grid_to_vector (city e) nl,
               agent_location_vector := replicate (grid_size (city e)) 0\<rparr>"
  using assms
  by (auto simp add: update_agent_location_def np_setitem_def np_pos_def
      observation_space_n_def Let_def split: sum.splits if_splits)

lemma step_Inr_iff: "step e a = Inr r \<longleftrightarrow> step_call e a = Inr r"
  by (simp add: step_def split: sum.splits)

lemma step_InrE [consumes 1, case_names step]:
  assumes "step e a = Inr (e', obs, rw, terminated, truncated, info)"
  obtains d j nl where
    "np_getitem action_to_direction a = Inr d"
    "nl = (fst (agent_location e) + fst d, snd (agent_location e) + snd d)"
    "calculate_reward (e\<lparr>stations_placed := stations_placed e + 1\<rparr>)
         [grid_to_vector (city e) (agent_location e), grid_to_vector (city e) nl] True = Inr rw"
    "np_pos (grid_size (city e)) (grid_to_vector (city e) nl) = Inr j"
    "city e' = city e"
    "nr_stations e' = nr_stations e"
    "stations_placed e' = stations_placed e + 1"
    "covered_segments e' = covered_segments e @
       [[grid_to_vector (city e) (agent_location e), grid_to_vector (city e) nl],
        [grid_to_vector (city e) nl, grid_to_vector (city e) (agent_location e)]]"
    "covered_cells_vid e' = covered_cells_vid e @ [grid_to_vector (city e) nl]"
    "covered_cells_gid e' = covered_cells_gid e @ [nl]"
    "agent_location e' = nl"
    "agent_location_vid e' = grid_to_vector (city e) nl"
    "agent_location_vector e' = (replicate (grid_size (city e)) 0)[j := 1]"
    "np_random e' = np_random e"
    "action_mask e' = action_mask (update_action_mask e' nl None)"
    "obs = get_obs e'"
    "info = get_info e'"
    "\<not> truncated"
    "terminated = (nr_stations e' \<le> stations_placed e' \<or> sum_list (action_mask e') = 0)"
proof -
  from assms have call: "step_call e a = Inr (e', obs, rw, terminated, truncated, info)"
    by (simp only: step_Inr_iff)
  from call obtain d where d: "np_getitem action_to_direction a = Inr d"
    by (auto simp add: step_call_def split: sum.splits)
  define nl where "nl = (fst (agent_location e) + fst d, snd (agent_location e) + snd d)"
  define e2 where "e2 = e\<lparr>stations_placed := stations_placed e + 1,
     covered_segments := covered_segments e @
       [[grid_to_vector (city e) (agent_location e), grid_to_vector (city e) nl],
        [grid_to_vector (city e) nl, grid_to_vector (city e) (agent_location e)]],
     covered_cells_vid := covered_cells_vid e @ [grid_to_vector (city e) nl],
     covered_cells_gid := covered_cells_gid e @ [nl]\<rparr>"
  from call d have rw: "calculate_reward (e\<lparr>stations_placed := stations_placed e + 1\<rparr>)
         [grid_to_vector (city e) (agent_location e), grid_to_vector (city e) nl] True = Inr rw"
    by (auto simp add: step_call_def Let_def nl_def split: sum.splits)
  from call d rw obtain e3 where e3: "update_agent_location e2 nl = Inr e3"
    and rest: "e' = update_action_mask e3 (agent_location e3) (Some a)"
      "obs = get_obs e'" "info = get_info e'" "\<not> truncated"
      "terminated = (nr_stations e' \<le> stations_placed e' \<or> sum_list (action_mask e') = 0)"
    by (auto simp add: step_call_def Let_def nl_def e2_def split: sum.splits)
  from update_agent_location_Inr [OF e3] obtain j where
    j: "np_pos (grid_size (city e2)) (grid_to_vector (city e2) nl) = Inr j"
    and e3_eq: "e3 = e2\<lparr>agent_location := nl,
                     agent_location_vid := grid_to_vector (city e2) nl,
                     agent_location_vector := (replicate (grid_size (city e2)) 0)[j := 1]\<rparr>"
    by auto
  have c2: "city e2 = city e" by (simp add: e2_def)
  have l3: "agent_location e3 = nl" by (simp add: e3_eq)
  have mask: "action_mask e' = action_mask (update_action_mask e' nl None)"
    unfolding rest(1) l3
    by (rule action_mask_update_cong) (simp_all add: update_action_mask_fields)
  show thesis
  proof (rule that [of d nl j])
    show "np_getitem action_to_direction a = Inr d" by (rule d)
    show "nl = (fst (agent_location e) + fst d, snd (agent_location e) + snd d)" by (rule nl_def)
    show "calculate_reward (e\<lparr>stations_placed := stations_placed e + 1\<rparr>)
         [grid_to_vector (city e) (agent_location e), grid_to_vector (city e) nl] True = Inr rw"
      by (rule rw)
    show "np_pos (grid_size (city e)) (grid_to_vector (city e) nl) = Inr j"
      using j by (simp add: c2)
    show "action_mask e' = action_mask (update_action_mask e' nl None)" by (rule mask)
  qed (simp_all add: rest e3_eq e2_def update_action_mask_fields)
qed

lemma demo_step_right:
  "\<exists>e' obs info. step demo_start 2 = Inr (e', obs, [Fin (3602879701896397 / 9007199254740992), Fin (1 / 2)], False, False, info)"
  by (simp add: demo_defs model_defs numeral_eq_Suc)

text \<open>
  Claim C1. Whenever \<open>step\<close> returns, its \<open>terminated\<close> flag is true if and only if,
  in the state it leaves, \<open>stations_placed >= nr_stations\<close> or every entry of the action
  mask is 0, where that mask is the 8-entry mask recomputed for the new location and
  \<open>stations_placed\<close> has been incremented; its \<open>truncated\<close> flag is false.
\<close>

theorem step_terminated_truncated:
  assumes "step e a = Inr (e', obs, rw, terminated, truncated, info)"
  shows "(terminated \<longleftrightarrow>
            stations_placed e' \<ge> nr_stations e' \<or> (\<forall>m \<in> set (action_mask e'). m = 0))
    \<and> \<not> truncated
    \<and> stations_placed e' = stations_placed e + 1
    \<and> nr_stations e' = nr_stations e
    \<and> length (action_mask e') = 8
    \<and> action_mask e' = action_mask (update_action_mask e' (agent_location e') None)"
  using assms
proof (cases rule: step_InrE)
  case (step d j nl)
  have m01: "set (action_mask e') \<subseteq> {0, 1}"
    by (subst step(15)) (rule action_mask_update_set)
  have len: "length (action_mask e') = 8"
    by (subst step(15)) (rule length_action_mask_update)
  have "terminated \<longleftrightarrow>
          stations_placed e' \<ge> nr_stations e' \<or> (\<forall>m \<in> set (action_mask e'). m = 0)"
    using step(19) sum_list_01_zero [OF m01] by simp
  moreover have "action_mask e' = action_mask (update_action_mask e' (agent_location e') None)"
    using step(15) by (simp add: step(11))
  ultimately show ?thesis
    using step(18) step(7) step(6) len by blast
qed

theorem step_terminated_truncated_witness:
  "\<exists>e' obs rw terminated truncated info.
      step demo_start 2 = Inr (e', obs, rw, terminated, truncated, info)
    \<and> (terminated \<longleftrightarrow>
            stations_placed e' \<ge> nr_stations e' \<or> (\<forall>m \<in> set (action_mask e'). m = 0))
    \<and> \<not> truncated
    \<and> stations_placed e' = stations_placed demo_start + 1
    \<and> length (action_mask e') = 8"
proof -
  from demo_step_right obtain e' obs rw terminated truncated info
    where s: "step demo_start 2 = Inr (e', obs, rw, terminated, truncated, info)"
    by blast
  from step_terminated_truncated [OF s] s show ?thesis by blast
qed

subsection \<open>The reward rule\<close>

lemma reward_loop_error:
  "reward_loop i gs m acc = Inl err \<Longrightarrow> err = ValueError"
proof (induction gs arbitrary: i acc)
  case Nil
  then show ?case by simp
next
  case (Cons g gs)
  obtain sat pct where acc: "acc = (sat, pct)" by (cases acc)
  from Cons.prems show ?case
    unfolding acc
    by (auto simp add: np_mul_def Let_def split: if_splits dest: Cons.IH)
qed

lemma reward_loop_shapes:
  "reward_loop i gs m acc = Inr r \<Longrightarrow> g \<in> set gs \<Longrightarrow> length g = length m"
proof (induction gs arbitrary: i acc)
  case Nil
  then show ?case by simp
next
  case (Cons g' gs)
  obtain sat pct where acc: "acc = (sat, pct)" by (cases acc)
  from Cons.prems show ?case
    unfolding acc
    by (auto simp add: np_mul_def Let_def split: if_splits dest: Cons.IH)
qed

lemma reward_loop_Inr:
  assumes "\<And>g. g \<in> set gs \<Longrightarrow> length g = length m"
    and "i + length gs = length sat" and "length pct = length sat"
  shows "\<exists>sat' pct'. reward_loop i gs m (sat, pct) = Inr (sat', pct')
     \<and> length sat' = length sat \<and> length pct' = length pct
     \<and> (\<forall>k < length gs.
           sat' ! (i + k) = np_sum (map2 np_times (gs ! k) m)
         \<and> pct' ! (i + k) = np_div (np_sum (map2 np_times (gs ! k) m)) (np_sum (gs ! k)))
     \<and> (\<forall>k < i. sat' ! k = sat ! k \<and> pct' ! k = pct ! k)"
  using assms
proof (induction gs arbitrary: i sat pct)
  case Nil
  then show ?case by simp
next
  case (Cons g gs)
  let ?sat = "sat[i := np_sum (map2 np_times g m)]"
  let ?pct = "pct[i := np_div (np_sum (map2 np_times g m)) (np_sum g)]"
  have i: "i < length sat" "i < length pct" using Cons.prems by simp_all
  have step: "reward_loop i (g # gs) m (sat, pct) = reward_loop (Suc i) gs m (?sat, ?pct)"
    using Cons.prems(1) [of g] i by (simp add: np_mul_def Let_def)
  have "\<exists>sat' pct'. reward_loop (Suc i) gs m (?sat, ?pct) = Inr (sat', pct')
     \<and> length sat' = length ?sat \<and> length pct' = length ?pct
     \<and> (\<forall>k < length gs.
           sat' ! (Suc i + k) = np_sum (map2 np_times (gs ! k) m)
         \<and> pct' ! (Suc i + k) = np_div (np_sum (map2 np_times (gs ! k) m)) (np_sum (gs ! k)))
     \<and> (\<forall>k < Suc i. sat' ! k = ?sat ! k \<and> pct' ! k = ?pct ! k)"
    using Cons.prems by (intro Cons.IH) simp_all
  then obtain sat' pct' where
    r: "reward_loop (Suc i) gs m (?sat, ?pct) = Inr (sat', pct')"
    and l: "length sat' = length sat" "length pct' = length pct"
    and v: "\<And>k. k < length gs \<Longrightarrow>
           sat' ! (Suc i + k) = np_sum (map2 np_times (gs ! k) m)
         \<and> pct' ! (Suc i + k) = np_div (np_sum (map2 np_times (gs ! k) m)) (np_sum (gs ! k))"
    and o: "\<And>k. k < Suc i \<Longrightarrow> sat' ! k = ?sat ! k \<and> pct' ! k = ?pct ! k"
    by auto
  have new: "\<And>k. k < length (g # gs) \<Longrightarrow>
           sat' ! (i + k) = np_sum (map2 np_times ((g # gs) ! k) m)
         \<and> pct' ! (i + k) = np_div (np_sum (map2 np_times ((g # gs) ! k) m)) (np_sum ((g # gs) ! k))"
  proof -
    fix k assume k: "k < length (g # gs)"
    show "sat' ! (i + k) = np_sum (map2 np_times ((g # gs) ! k) m)
         \<and> pct' ! (i + k) = np_div (np_sum (map2 np_times ((g # gs) ! k) m)) (np_sum ((g # gs) ! k))"
    proof (cases k)
      case 0
      then show ?thesis using o [of i] i by simp
    next
      case (Suc k')
      then show ?thesis using v [of k'] k by simp
    qed
  qed
  have old: "\<And>k. k < i \<Longrightarrow> sat' ! k = sat ! k \<and> pct' ! k = pct ! k"
    using o by simp
  show ?case
    unfolding step using r l new old by simp
qed




lemma calculate_reward_fresh:
  assumes mx: "group_od_mx (city e) = Some mx" "mx \<noteq> []"
    and fresh: "segment \<notin> set (covered_segments e)"
    and shape: "\<And>g. g \<in> set mx \<Longrightarrow> length g = length (satisfied_od_mask (city e) segment)"
  shows "\<exists>rw. calculate_reward e segment True = Inr rw \<and> length rw = length mx
     \<and> (\<forall>i < length mx.
           rw ! i = np_div (np_sum (map2 np_times (mx ! i) (satisfied_od_mask (city e) segment)))
                      (np_sum (mx ! i)))"
proof -
  let ?m = "satisfied_od_mask (city e) segment"
  from reward_loop_Inr [of mx ?m 0 "replicate (length mx) (Fin 0)" "replicate (length mx) (Fin 0)"]
    shape
  obtain sat' pct' where
    r: "reward_loop 0 mx ?m (replicate (length mx) (Fin 0), replicate (length mx) (Fin 0))
          = Inr (sat', pct')"
    and l: "length pct' = length mx"
    and v: "\<forall>k < length mx.
           pct' ! k = np_div (np_sum (map2 np_times (mx ! k) ?m)) (np_sum (mx ! k))"
    by auto
  show ?thesis
    using mx fresh r l v by (simp add: calculate_reward_def)
qed

lemma calculate_reward_Inr:
  assumes "calculate_reward e segment True = Inr rw"
  shows "\<exists>mx. group_od_mx (city e) = Some mx \<and> mx \<noteq> [] \<and> length rw = length mx
     \<and> (if segment \<in> set (covered_segments e) then rw = replicate (length mx) (Fin 0)
         else (\<forall>g \<in> set mx. length g = length (satisfied_od_mask (city e) segment))
           \<and> (\<forall>i < length mx.
                 rw ! i = np_div (np_sum (map2 np_times (mx ! i) (satisfied_od_mask (city e) segment)))
                            (np_sum (mx ! i))))"
proof -
  from assms obtain mx where mx: "group_od_mx (city e) = Some mx" "mx \<noteq> []"
    by (auto simp add: calculate_reward_def split: option.splits if_splits)
  show ?thesis
  proof (cases "segment \<in> set (covered_segments e)")
    case True
    with assms mx show ?thesis by (auto simp add: calculate_reward_def)
  next
    case False
    from assms mx False obtain r where
      "reward_loop 0 mx (satisfied_od_mask (city e) segment)
         (replicate (length mx) (Fin 0), replicate (length mx) (Fin 0)) = Inr r"
      by (auto simp add: calculate_reward_def split: sum.splits)
    then have shape: "\<And>g. g \<in> set mx \<Longrightarrow> length g = length (satisfied_od_mask (city e) segment)"
      by (rule reward_loop_shapes)
    from calculate_reward_fresh [OF mx False shape] assms
    show ?thesis using mx False shape by auto
  qed
qed

lemma calculate_reward_assert:
  "calculate_reward e segment use_pct = Inl AssertionError
     \<longleftrightarrow> group_od_mx (city e) = None \<or> group_od_mx (city e) = Some []"
  by (auto simp add: calculate_reward_def split: option.splits sum.splits
      dest: reward_loop_error)

lemma update_agent_location_error:
  "update_agent_location e nl = Inl raised \<Longrightarrow> fst raised = IndexError"
  by (auto simp add: update_agent_location_def np_setitem_def np_pos_def Let_def
      split: sum.splits if_splits)

lemma np_getitem_directions:
  "(\<exists>d. np_getitem action_to_direction a = Inr d) \<longleftrightarrow> - 8 \<le> a \<and> a < 8"
  "np_getitem action_to_direction a = Inl err \<Longrightarrow> err = IndexError"
  by (auto simp add: np_getitem_def np_pos_def Let_def length_action_to_direction
      split: if_splits)

text \<open>
  Claim C9. A call of \<open>_calculate_reward\<close> raises \<open>AssertionError\<close> exactly when the
  city's \<open>group_od_mx\<close> is \<open>None\<close> or empty, whatever the segment, the covered segments
  and the mask of the city are: the assertion comes before any other computation.
  \<open>step\<close> calls \<open>_calculate_reward\<close> once its action has selected a direction (an
  action in \<open>[-8, 8)\<close>), and raises \<open>AssertionError\<close> exactly in that case when the data
  is missing or empty; with non-empty data neither of them raises it.
\<close>

theorem assertion_fails_fast:
  "(calculate_reward e segment use_pct = Inl AssertionError
      \<longleftrightarrow> group_od_mx (city e) = None \<or> group_od_mx (city e) = Some [])
   \<and> (step e a = Inl AssertionError
      \<longleftrightarrow> - 8 \<le> a \<and> a < 8
          \<and> (group_od_mx (city e) = None \<or> group_od_mx (city e) = Some []))"
proof -
  have "step e a = Inl AssertionError
      \<longleftrightarrow> - 8 \<le> a \<and> a < 8
          \<and> (group_od_mx (city e) = None \<or> group_od_mx (city e) = Some [])"
  proof (cases "np_getitem action_to_direction a")
    case (Inl err)
    then show ?thesis
      using np_getitem_directions [of a] by (auto simp add: step_def step_call_def)
  next
    case (Inr d)
    then have a: "- 8 \<le> a \<and> a < 8" using np_getitem_directions(1) [of a] by blast
    have "step e a = Inl AssertionError \<longleftrightarrow>
      calculate_reward (e\<lparr>stations_placed := stations_placed e + 1\<rparr>)
         [grid_to_vector (city e) (agent_location e),
          grid_to_vector (city e)
            (fst (agent_location e) + fst d, snd (agent_location e) + snd d)] True
        = Inl AssertionError"
      using Inr
      by (auto simp add: step_def step_call_def Let_def split: sum.splits
          dest: update_agent_location_error)
    then show ?thesis using a by (simp add: calculate_reward_assert)
  qed
  then show ?thesis by (simp add: calculate_reward_assert)
qed

theorem assertion_fails_fast_witness:
  "calculate_reward (demo_start\<lparr>city := demo_city\<lparr>group_od_mx := None\<rparr>\<rparr>) [0, 1] True
     = Inl AssertionError
   \<and> step (demo_start\<lparr>city := demo_city\<lparr>group_od_mx := Some []\<rparr>\<rparr>) 2 = Inl AssertionError
   \<and> calculate_reward demo_start [0, 1] True \<noteq> Inl AssertionError
   \<and> step demo_start 2 \<noteq> Inl AssertionError"
  using assertion_fails_fast [of "demo_start\<lparr>city := demo_city\<lparr>group_od_mx := None\<rparr>\<rparr>" "[0, 1]" True 2]
    assertion_fails_fast [of "demo_start\<lparr>city := demo_city\<lparr>group_od_mx := Some []\<rparr>\<rparr>" "[0, 1]" True 2]
    assertion_fails_fast [of demo_start "[0, 1]" True 2]
  by (simp add: demo_city_def demo_start_def)

lemma demo_reward: "calculate_reward demo_start [0, 1] True = Inr [Fin (3602879701896397 / 9007199254740992), Fin (1 / 2)]"
  by (simp add: demo_defs model_defs numeral_eq_Suc)

text \<open>
  Claim C3. For a segment that is not in \<open>covered_segments\<close> and a group index \<open>i\<close>, the
  reward vector that \<open>_calculate_reward\<close> returns has one entry per group OD matrix and
  its entry \<open>i\<close> is \<open>sum(group_od_mx[i] * mask) / sum(group_od_mx[i])\<close>, where \<open>mask\<close> is
  the city's \<open>satisfied_od_mask\<close> of the segment; and the call returns whenever the mask
  has the size of every OD matrix.
\<close>

theorem calculate_reward_fraction:
  assumes "group_od_mx (city e) = Some mx"
    and "segment \<notin> set (covered_segments e)"
    and "i < length mx"
  shows "(calculate_reward e segment True = Inr rw \<longrightarrow>
            length rw = length mx
          \<and> (\<exists>p. np_mul (mx ! i) (satisfied_od_mask (city e) segment) = Inr p
                \<and> rw ! i = np_div (np_sum p) (np_sum (mx ! i))))
    \<and> ((\<forall>g \<in> set mx. length g = length (satisfied_od_mask (city e) segment)) \<longrightarrow>
          (\<exists>rw'. calculate_reward e segment True = Inr rw'))"
proof (intro conjI impI)
  assume r: "calculate_reward e segment True = Inr rw"
  from calculate_reward_Inr [OF r] assms
  have l: "length rw = length mx"
    and s: "\<forall>g \<in> set mx. length g = length (satisfied_od_mask (city e) segment)"
    and v: "rw ! i = np_div (np_sum (map2 np_times (mx ! i) (satisfied_od_mask (city e) segment)))
                            (np_sum (mx ! i))"
    by auto
  show "length rw = length mx" by (rule l)
  have "np_mul (mx ! i) (satisfied_od_mask (city e) segment)
          = Inr (map2 np_times (mx ! i) (satisfied_od_mask (city e) segment))"
    using s assms(3) by (simp add: np_mul_def)
  with v show "\<exists>p. np_mul (mx ! i) (satisfied_od_mask (city e) segment) = Inr p
                \<and> rw ! i = np_div (np_sum p) (np_sum (mx ! i))"
    by simp
next
  assume s: "\<forall>g \<in> set mx. length g = length (satisfied_od_mask (city e) segment)"
  have "mx \<noteq> []" using assms(3) by auto
  from calculate_reward_fresh [OF assms(1) this assms(2)] s
  show "\<exists>rw'. calculate_reward e segment True = Inr rw'" by blast
qed

theorem calculate_reward_fraction_witness:
  "calculate_reward demo_start [0, 1] True
     = Inr [Fin (3602879701896397 / 9007199254740992), Fin (1 / 2)]
   \<and> np_mul demo_od2 (demo_mask [0, 1])
        = Inr (map Fin [0, 1, 0, 0,  1, 0, 0, 0,  0, 0, 0, 0,  0, 0, 0, 0])
   \<and> [Fin (3602879701896397 / 9007199254740992), Fin (1 / 2)] ! 1
        = np_div (np_sum (map Fin [0, 1, 0, 0,  1, 0, 0, 0,  0, 0, 0, 0,  0, 0, 0, 0]))
            (np_sum demo_od2)"
  using calculate_reward_fraction
    [of demo_start "[demo_od1, demo_od2]" "[0, 1]" 1
        "[Fin (3602879701896397 / 9007199254740992), Fin (1 / 2)]"]
    demo_reward
  by (simp add: demo_defs np_mul_def np_sum_def float_eval)







subsection \<open>No double credit\<close>

lemma demo_step_right_state:
  "step demo_start 2 =
     Inr (demo_second, get_obs demo_second, [Fin (3602879701896397 / 9007199254740992), Fin (1 / 2)], False, False,
          get_info demo_second)"
  by (simp add: demo_defs model_defs numeral_eq_Suc)

lemma demo_step_back:
  "\<exists>e2 obs2 info2. step demo_second 6 = Inr (e2, obs2, [Fin 0, Fin 0], False, False, info2)
      \<and> agent_location e2 = (0, 0)"
  by (simp add: demo_defs model_defs numeral_eq_Suc)

lemma calculate_reward_covered:
  assumes "group_od_mx (city e) = Some mx" and "mx \<noteq> []"
    and "segment \<in> set (covered_segments e)"
  shows "calculate_reward e segment use_pct = Inr (replicate (length mx) (Fin 0))"
  using assms by (simp add: calculate_reward_def)

text \<open>
  Claim C2. When the city provides a non-empty list of group OD matrices, one per
  group, \<open>_calculate_reward\<close> on a segment that is a member of \<open>covered_segments\<close>
  returns the zero vector of length \<open>nr_groups\<close>. A returning \<open>step\<close> leaves both
  directed orderings of the segment it traversed in \<open>covered_segments\<close>, so that the
  reward of either ordering is the zero vector from then on, and the next \<open>step\<close>, when
  it leads back to the cell the agent came from, returns the zero vector as its reward.
\<close>

theorem no_double_credit:
  assumes "group_od_mx (city e) = Some mx" and "mx \<noteq> []"
    and "length (groups (city e)) = length mx"
    and "from_idx = grid_to_vector (city e) (agent_location e)"
    and "to_idx = grid_to_vector (city e) (agent_location e1)"
  shows "(segment \<in> set (covered_segments e) \<longrightarrow>
            calculate_reward e segment use_pct = Inr (replicate (nr_groups e) (Fin 0)))
    \<and> (step e a = Inr (e1, obs1, rw1, terminated1, truncated1, info1) \<longrightarrow>
          [from_idx, to_idx] \<in> set (covered_segments e1)
        \<and> [to_idx, from_idx] \<in> set (covered_segments e1)
        \<and> calculate_reward e1 [from_idx, to_idx] use_pct = Inr (replicate (nr_groups e) (Fin 0))
        \<and> calculate_reward e1 [to_idx, from_idx] use_pct = Inr (replicate (nr_groups e) (Fin 0))
        \<and> (step e1 b = Inr (e2, obs2, rw2, terminated2, truncated2, info2)
             \<and> agent_location e2 = agent_location e \<longrightarrow>
               rw2 = replicate (nr_groups e) (Fin 0)))"
proof (intro conjI impI)
  assume "segment \<in> set (covered_segments e)"
  from calculate_reward_covered [OF assms(1,2) this]
  show "calculate_reward e segment use_pct = Inr (replicate (nr_groups e) (Fin 0))"
    by (simp add: nr_groups_def assms(3))
next
  assume s1: "step e a = Inr (e1, obs1, rw1, terminated1, truncated1, info1)"
  then have fields: "city e1 = city e"
    "agent_location_vid e1 = to_idx"
    "covered_segments e1 = covered_segments e @ [[from_idx, to_idx], [to_idx, from_idx]]"
    by (cases rule: step_InrE; simp add: assms(4,5))+
  have mx1: "group_od_mx (city e1) = Some mx" using assms(1) fields(1) by simp
  show ft: "[from_idx, to_idx] \<in> set (covered_segments e1)" by (simp add: fields(3))
  show tf: "[to_idx, from_idx] \<in> set (covered_segments e1)" by (simp add: fields(3))
  from calculate_reward_covered [OF mx1 assms(2) ft]
  show "calculate_reward e1 [from_idx, to_idx] use_pct = Inr (replicate (nr_groups e) (Fin 0))"
    by (simp add: nr_groups_def assms(3))
  from calculate_reward_covered [OF mx1 assms(2) tf]
  show "calculate_reward e1 [to_idx, from_idx] use_pct = Inr (replicate (nr_groups e) (Fin 0))"
    by (simp add: nr_groups_def assms(3))
  assume s2: "step e1 b = Inr (e2, obs2, rw2, terminated2, truncated2, info2)
             \<and> agent_location e2 = agent_location e"
  then have ret: "agent_location e2 = agent_location e" by simp
  from s2 have "step e1 b = Inr (e2, obs2, rw2, terminated2, truncated2, info2)" by simp
  then have "calculate_reward (e1\<lparr>stations_placed := stations_placed e1 + 1\<rparr>)
       [grid_to_vector (city e1) (agent_location e1),
        grid_to_vector (city e1) (agent_location e2)] True = Inr rw2"
    by (cases rule: step_InrE) simp
  then have r2: "calculate_reward (e1\<lparr>stations_placed := stations_placed e1 + 1\<rparr>)
       [to_idx, from_idx] True = Inr rw2"
    by (simp add: fields(1) ret assms(4,5))
  have "calculate_reward (e1\<lparr>stations_placed := stations_placed e1 + 1\<rparr>)
       [to_idx, from_idx] True = Inr (replicate (length mx) (Fin 0))"
    by (rule calculate_reward_covered) (simp_all add: mx1 assms(2) tf)
  with r2 show "rw2 = replicate (nr_groups e) (Fin 0)"
    by (simp add: nr_groups_def assms(3))
qed

theorem no_double_credit_witness:
  "\<exists>e2 obs2 info2.
      step demo_start 2 =
        Inr (demo_second, get_obs demo_second, [Fin (3602879701896397 / 9007199254740992), Fin (1 / 2)], False, False,
             get_info demo_second)
    \<and> step demo_second 6 = Inr (e2, obs2, [Fin 0, Fin 0], False, False, info2)
    \<and> agent_location e2 = agent_location demo_start
    \<and> [Fin 0, Fin 0] = replicate (nr_groups demo_start) (Fin 0)
    \<and> [0, 1] \<in> set (covered_segments demo_second)
    \<and> [1, 0] \<in> set (covered_segments demo_second)
    \<and> calculate_reward demo_second [0, 1] True = Inr [Fin 0, Fin 0]
    \<and> calculate_reward demo_second [1, 0] True = Inr [Fin 0, Fin 0]"
proof -
  from demo_step_back obtain e2 obs2 info2 where
    s2: "step demo_second 6 = Inr (e2, obs2, [Fin 0, Fin 0], False, False, info2)"
    and ret0: "agent_location e2 = (0, 0)"
    by blast
  have ret: "agent_location e2 = agent_location demo_start"
    using ret0 by (simp add: demo_start_def)
  have mx: "group_od_mx (city demo_start) = Some [demo_od1, demo_od2]"
    "[demo_od1, demo_od2] \<noteq> []"
    "length (groups (city demo_start)) = length [demo_od1, demo_od2]"
    by (simp_all add: demo_start_def demo_city_def)
  have idx: "0 = grid_to_vector (city demo_start) (agent_location demo_start)"
    "1 = grid_to_vector (city demo_start) (agent_location demo_second)"
    by (simp_all add: demo_start_def demo_second_def demo_city_def)
  from no_double_credit [OF mx idx, of "[0, 1]" True 2 "get_obs demo_second"
      "[Fin (3602879701896397 / 9007199254740992), Fin (1 / 2)]" False False "get_info demo_second" 6 e2 obs2
      "[Fin 0, Fin 0]" False False info2]
    demo_step_right_state s2 ret
  have "[0, 1] \<in> set (covered_segments demo_second)
      \<and> [1, 0] \<in> set (covered_segments demo_second)
      \<and> calculate_reward demo_second [0, 1] True = Inr (replicate (nr_groups demo_start) (Fin 0))
      \<and> calculate_reward demo_second [1, 0] True = Inr (replicate (nr_groups demo_start) (Fin 0))
      \<and> [Fin 0, Fin 0] = replicate (nr_groups demo_start) (Fin 0)"
    by simp
  moreover have "replicate (nr_groups demo_start) (Fin 0) = [Fin 0, Fin 0]"
    by (simp add: nr_groups_def demo_start_def demo_city_def numeral_eq_Suc)
  ultimately show ?thesis
    using demo_step_right_state s2 ret by simp
qed

subsection \<open>What a returning \<open>reset\<close> has done\<close>

lemma np_pos_Inr:
  assumes "np_pos n i = Inr j"
  shows "j < n" and "0 \<le> i \<Longrightarrow> j = nat i" and "i < 0 \<Longrightarrow> int j = i + int n"
  using assms by (auto simp add: np_pos_def Let_def split: if_splits)

lemma sum_list_one_hot:
  fixes j :: nat
  assumes "j < n"
  shows "sum_list ((replicate n (0::real))[j := 1]) = 1"
  using assms
proof (induction n arbitrary: j)
  case 0
  then show ?case by simp
next
  case (Suc n)
  then show ?case by (cases j) (simp_all add: sum_list_replicate)
qed

text \<open>Either \<open>reset\<close> raises \<open>ValueError\<close> before it has a location, or it goes on
  with \<open>_update_agent_location\<close> at a location \<open>nl\<close>.\<close>

lemma reset_call_cases:
  obtains (raised) ex where "reset_call G e seed loc = Inl (ValueError, ex)"
  | (located) eb nl where
      "city eb = city e" "nr_stations eb = nr_stations e"
      "\<And>t. loc = PyTuple t \<Longrightarrow> nl = t" "\<And>a. loc \<noteq> PyArray a"
      "reset_call G e seed loc =
         (case update_agent_location eb nl of
            Inl r \<Rightarrow> Inl r | Inr e1 \<Rightarrow> Inr (reset_tail e1))"
proof -
  define e0 where "e0 = (case seed of None \<Rightarrow> e | Some s \<Rightarrow> e\<lparr>np_random := seeded G s\<rparr>)"
  have c0: "city e0 = city e" "nr_stations e0 = nr_stations e"
    by (simp_all add: e0_def split: option.splits)
  show thesis
  proof (cases loc)
    case PyNone
    obtain x g1 where d1: "integers G (np_random e0) 0 (grid_x_size (city e0)) = (x, g1)"
      by (cases "integers G (np_random e0) 0 (grid_x_size (city e0))")
    obtain y g2 where d2: "integers G g1 0 (grid_y_size (city e0)) = (y, g2)"
      by (cases "integers G g1 0 (grid_y_size (city e0))")
    let ?eb = "e0\<lparr>np_random := g2\<rparr>"
    show ?thesis
    proof (cases "grid_x_size (city e0) \<le> 0 \<or> grid_y_size (city e0) \<le> 0")
      case True
      then have "\<exists>ex. reset_call G e seed loc = Inl (ValueError, ex)"
        using PyNone d1
        by (auto simp add: reset_call_def Let_def e0_def [symmetric])
      then show ?thesis using raised by blast
    next
      case False
      then have "reset_call G e seed loc =
         (case update_agent_location ?eb (x, y) of
            Inl r \<Rightarrow> Inl r | Inr e1 \<Rightarrow> Inr (reset_tail e1))"
        using PyNone d1 d2
        by (simp add: reset_call_def Let_def e0_def [symmetric])
      then show ?thesis
        using c0 PyNone by (intro located [of ?eb "(x, y)"]) simp_all
    qed
  next
    case (PyTuple t)
    then have "reset_call G e seed loc =
         (case update_agent_location e0 t of
            Inl r \<Rightarrow> Inl r | Inr e1 \<Rightarrow> Inr (reset_tail e1))"
      by (simp add: reset_call_def Let_def e0_def [symmetric])
    then show ?thesis
      using c0 PyTuple by (intro located [of e0 t]) simp_all
  next
    case (PyArray a)
    then have "\<exists>ex. reset_call G e seed loc = Inl (ValueError, ex)"
      by (simp add: reset_call_def Let_def)
    then show ?thesis using raised by blast
  qed
qed

lemma reset_Inr_iff: "reset G e seed loc = Inr r \<longleftrightarrow> reset_call G e seed loc = Inr r"
  by (simp add: reset_def split: sum.splits)

lemma reset_Inr_update:
  assumes "reset G e seed loc = Inr r"
  shows "\<exists>eb nl e1. update_agent_location eb nl = Inr e1
     \<and> city eb = city e \<and> nr_stations eb = nr_stations e
     \<and> reset_tail e1 = r
     \<and> (\<forall>t. loc = PyTuple t \<longrightarrow> nl = t) \<and> (\<forall>a. loc \<noteq> PyArray a)"
proof -
  from assms have call: "reset_call G e seed loc = Inr r" by (simp only: reset_Inr_iff)
  show ?thesis
  proof (cases rule: reset_call_cases [of G e seed loc])
    case (raised ex)
    with call show ?thesis by simp
  next
    case (located eb nl)
    from call located(5) obtain e1 where
      "update_agent_location eb nl = Inr e1" "reset_tail e1 = r"
      by (cases "update_agent_location eb nl") simp_all
    with located(1-4) show ?thesis by blast
  qed
qed

lemma reset_InrE [consumes 1, case_names reset]:
  assumes "reset G e seed loc = Inr (e', obs, info)"
  obtains nl j where
    "np_pos (grid_size (city e)) (grid_to_vector (city e) nl) = Inr j"
    "city e' = city e"
    "nr_stations e' = nr_stations e"
    "stations_placed e' = 1"
    "covered_segments e' = []"
    "covered_cells_vid e' = [grid_to_vector (city e) nl]"
    "covered_cells_gid e' = [nl]"
    "agent_location e' = nl"
    "agent_location_vid e' = grid_to_vector (city e) nl"
    "agent_location_vector e' = (replicate (grid_size (city e)) 0)[j := 1]"
    "action_mask e' = action_mask (update_action_mask e' nl None)"
    "obs = get_obs e'"
    "info = get_info e'"
    "\<And>t. loc = PyTuple t \<Longrightarrow> nl = t"
    "\<And>a. loc \<noteq> PyArray a"
proof -
  from reset_Inr_update [OF assms] obtain eb nl e1 where
    up: "update_agent_location eb nl = Inr e1"
    and cb: "city eb = city e" and nb: "nr_stations eb = nr_stations e"
    and tail: "reset_tail e1 = (e', obs, info)"
    and tup: "\<And>t. loc = PyTuple t \<Longrightarrow> nl = t"
    and arr: "\<And>a. loc \<noteq> PyArray a"
    by blast
  from update_agent_location_Inr [OF up] obtain j where
    j: "np_pos (grid_size (city eb)) (grid_to_vector (city eb) nl) = Inr j"
    and e1: "e1 = eb\<lparr>agent_location := nl,
                     agent_location_vid := grid_to_vector (city eb) nl,
                     agent_location_vector := (replicate (grid_size (city eb)) 0)[j := 1]\<rparr>"
    by blast
  define e2 where "e2 = e1\<lparr>stations_placed := 1,
                  covered_cells_vid := [grid_to_vector (city e1) (agent_location e1)],
                  covered_cells_gid := [agent_location e1],
                  covered_segments := []\<rparr>"
  from tail have e': "e' = update_action_mask e2 (agent_location e2) None"
    and oi: "obs = get_obs e'" "info = get_info e'"
    by (auto simp add: reset_tail_def Let_def e2_def)
  have l2: "agent_location e2 = nl" by (simp add: e2_def e1)
  have mask: "action_mask e' = action_mask (update_action_mask e' nl None)"
    unfolding e' l2
    by (rule action_mask_update_cong) (simp_all add: update_action_mask_fields)
  show thesis
  proof (rule that [of nl j])
    show "np_pos (grid_size (city e)) (grid_to_vector (city e) nl) = Inr j"
      using j by (simp add: cb)
    show "action_mask e' = action_mask (update_action_mask e' nl None)" by (rule mask)
    show "\<And>t. loc = PyTuple t \<Longrightarrow> nl = t" by (rule tup)
    show "\<And>a. loc \<noteq> PyArray a" by (rule arr)
  qed (simp_all add: oi e' e2_def e1 update_action_mask_fields cb nb)
qed

subsection \<open>The start location\<close>

text \<open>
  Claim C6. A start location supplied to \<open>reset\<close> as a coordinate pair becomes the
  agent location and the location of the returned observation. A start location
  supplied as an array does not: \<open>if loc:\<close> asks for the truth value of an array of
  two elements, and \<open>reset\<close> raises \<open>ValueError\<close> on it, whatever the state, the seed
  and the coordinates.
\<close>

theorem reset_start_location:
  "reset G e seed (PyArray a) = Inl ValueError
   \<and> (reset G e seed (PyTuple t) = Inr (e', obs, info) \<longrightarrow>
         agent_location e' = t \<and> location obs = t)"
proof (intro conjI impI)
  show "reset G e seed (PyArray a) = Inl ValueError"
    by (simp add: reset_def reset_call_def Let_def)
next
  assume "reset G e seed (PyTuple t) = Inr (e', obs, info)"
  then show "agent_location e' = t"
    by (cases rule: reset_InrE) simp
next
  assume "reset G e seed (PyTuple t) = Inr (e', obs, info)"
  then show "location obs = t"
    by (cases rule: reset_InrE) (simp add: get_obs_def)
qed

theorem reset_start_location_witness:
  "reset demo_rng (init demo_city 4 0) None (PyArray (0, 0)) = Inl ValueError
   \<and> reset demo_rng (init demo_city 4 0) None (PyTuple (0, 0))
        = Inr (demo_start, get_obs demo_start, get_info demo_start)
   \<and> agent_location demo_start = (0, 0) \<and> location (get_obs demo_start) = (0, 0)"
  using reset_start_location [of demo_rng "init demo_city 4 0" None "(0, 0)" "(0, 0)"
      demo_start "get_obs demo_start" "get_info demo_start"]
    demo_reset
  by simp

subsection \<open>The three views of the agent location\<close>

lemma one_hot_views:
  assumes j: "np_pos n vid = Inr j" and vec: "vec = (replicate n (0::real))[j := 1]"
  shows "length vec = n"
    and "np_getitem vec vid = Inr 1"
    and "sum_list vec = 1"
    and "\<forall>k < n. vec ! k = (if k = j then 1 else 0)"
    and "0 \<le> vid \<longrightarrow> nat vid < n \<and> vec ! nat vid = 1"
proof -
  note b = np_pos_Inr [OF j]
  show "length vec = n" by (simp add: vec)
  show "np_getitem vec vid = Inr 1" using j b(1) by (simp add: np_getitem_def vec)
  show "sum_list vec = 1" using b(1) by (simp add: vec sum_list_one_hot)
  show "\<forall>k < n. vec ! k = (if k = j then 1 else 0)" using b(1) by (simp add: vec)
  show "0 \<le> vid \<longrightarrow> nat vid < n \<and> vec ! nat vid = 1" using b(1,2) by (auto simp add: vec)
qed

lemma calculate_reward_error:
  "calculate_reward e segment use_pct = Inl err \<Longrightarrow> err = AssertionError \<or> err = ValueError"
  by (auto simp add: calculate_reward_def split: option.splits if_splits sum.splits
      dest: reward_loop_error)

text \<open>The attributes after a \<open>step\<close> or a \<open>reset\<close> that raises \<open>IndexError\<close> at the
  write into the one-hot vector.\<close>

lemma step_IndexError:
  assumes "step e a = Inl IndexError" and "- 8 \<le> a" and "a < 8"
  shows "city (after_step e a) = city e
    \<and> agent_location_vid (after_step e a)
        = grid_to_vector (city e) (agent_location (after_step e a))
    \<and> np_pos (grid_size (city e)) (agent_location_vid (after_step e a)) = Inl IndexError
    \<and> agent_location_vector (after_step e a) = replicate (grid_size (city e)) 0"
proof -
  from assms(2,3) obtain d where d: "np_getitem action_to_direction a = Inr d"
    using np_getitem_directions(1) [of a] by blast
  define nl where "nl = (fst (agent_location e) + fst d, snd (agent_location e) + snd d)"
  define e1 where "e1 = e\<lparr>stations_placed := stations_placed e + 1\<rparr>"
  define seg where
    "seg = [grid_to_vector (city e) (agent_location e), grid_to_vector (city e) nl]"
  define e2 where "e2 = e1\<lparr>covered_segments := covered_segments e1 @ [seg, rev seg],
     covered_cells_vid := covered_cells_vid e1 @ [grid_to_vector (city e) nl],
     covered_cells_gid := covered_cells_gid e1 @ [nl]\<rparr>"
  obtain rw where rw: "calculate_reward e1 seg True = Inr rw"
  proof (cases "calculate_reward e1 seg True")
    case (Inl err)
    then have "step e a = Inl err"
      using d by (simp add: step_def step_call_def Let_def nl_def e1_def seg_def)
    with assms(1) calculate_reward_error [OF Inl] show ?thesis by simp
  next
    case (Inr rw)
    then show ?thesis by (rule that)
  qed
  have raise: "step_call e a = Inl raised" if "update_agent_location e2 nl = Inl raised"
    for raised
    using d rw that by (simp add: step_call_def Let_def nl_def e1_def seg_def e2_def)
  have ret: "\<exists>r. step_call e a = Inr r" if "update_agent_location e2 nl = Inr e3" for e3
    using d rw that by (auto simp add: step_call_def Let_def nl_def e1_def seg_def e2_def)
  from assms(1) ret obtain err ex where up: "update_agent_location e2 nl = Inl (err, ex)"
    by (cases "update_agent_location e2 nl") (auto simp add: step_def)
  from update_agent_location_Inl [OF up]
  have ex: "np_pos (grid_size (city e2)) (grid_to_vector (city e2) nl) = Inl IndexError"
    "ex = e2\<lparr>agent_location := nl,
               agent_location_vid := grid_to_vector (city e2) nl,
               agent_location_vector := replicate (grid_size (city e2)) 0\<rparr>"
    by simp_all
  have after: "after_step e a = ex" using raise [OF up] by (simp add: after_step_def)
  have c2: "city e2 = city e" by (simp add: e2_def e1_def)
  show ?thesis using ex(1) by (simp add: after ex(2) c2)
qed

lemma reset_IndexError:
  assumes "reset G e seed loc = Inl IndexError"
  shows "city (after_reset G e seed loc) = city e
    \<and> agent_location_vid (after_reset G e seed loc)
        = grid_to_vector (city e) (agent_location (after_reset G e seed loc))
    \<and> np_pos (grid_size (city e)) (agent_location_vid (after_reset G e seed loc))
        = Inl IndexError
    \<and> agent_location_vector (after_reset G e seed loc) = replicate (grid_size (city e)) 0"
proof (cases rule: reset_call_cases [of G e seed loc])
  case (raised ex)
  with assms show ?thesis by (simp add: reset_def)
next
  case (located eb nl)
  from assms located(5) obtain err ex where up: "update_agent_location eb nl = Inl (err, ex)"
    by (cases "update_agent_location eb nl") (auto simp add: reset_def)
  from update_agent_location_Inl [OF up]
  have ex: "np_pos (grid_size (city eb)) (grid_to_vector (city eb) nl) = Inl IndexError"
    "ex = eb\<lparr>agent_location := nl,
               agent_location_vid := grid_to_vector (city eb) nl,
               agent_location_vector := replicate (grid_size (city eb)) 0\<rparr>"
    by simp_all
  have after: "after_reset G e seed loc = ex"
    using located(5) up by (simp add: after_reset_def)
  show ?thesis using ex(1) by (simp add: after ex(2) located(1))
qed

lemma demo_corner_reset:
  "reset demo_rng (init demo_city 4 0) None (PyTuple (1, 1)) =
     Inr (demo_corner, get_obs demo_corner, get_info demo_corner)"
  by (simp add: demo_defs model_defs numeral_eq_Suc)

lemma demo_corner_step_down:
  "step demo_corner 4 = Inl IndexError \<and> after_step demo_corner 4 = demo_fallen"
  by (simp add: demo_defs model_defs numeral_eq_Suc)

text \<open>
  Claim C8. In the state that a returning \<open>reset\<close> or \<open>step\<close> leaves, the linear
  index of the agent is \<open>grid_to_vector\<close> of its coordinate location, and the one-hot
  vector has length \<open>grid_size\<close>, holds 1 at that linear index (read as NumPy reads an
  index: a negative index, reached only by leaving the grid, counts from the end) and
  0 everywhere else, so that its entries sum to 1. When the index is not negative, the
  position of the 1 is the index itself. A \<open>reset\<close> or \<open>step\<close> that raises \<open>IndexError\<close>
  at the write into the vector, because the index of the new location lies outside
  \<open>[-grid_size, grid_size)\<close>, leaves the new location with its index stored and a
  vector of \<open>grid_size\<close> zeros: then no entry is 1 and the entries sum to 0.
\<close>

theorem location_views_consistent:
  "(reset G e seed loc = Inr (e', obs, info)
      \<or> step e a = Inr (e', obs, rw, terminated, truncated, info) \<longrightarrow>
      agent_location_vid e' = grid_to_vector (city e') (agent_location e')
    \<and> length (agent_location_vector e') = grid_size (city e')
    \<and> np_getitem (agent_location_vector e') (agent_location_vid e') = Inr 1
    \<and> (\<exists>j < grid_size (city e').
          np_pos (grid_size (city e')) (agent_location_vid e') = Inr j
        \<and> (\<forall>k < grid_size (city e').
              agent_location_vector e' ! k = (if k = j then 1 else 0)))
    \<and> sum_list (agent_location_vector e') = 1
    \<and> (0 \<le> agent_location_vid e' \<longrightarrow>
          nat (agent_location_vid e') < grid_size (city e')
        \<and> agent_location_vector e' ! nat (agent_location_vid e') = 1)
    \<and> obs = get_obs e')
   \<and> (reset G e seed loc = Inl IndexError \<longrightarrow>
      agent_location_vid (after_reset G e seed loc)
        = grid_to_vector (city (after_reset G e seed loc))
            (agent_location (after_reset G e seed loc))
    \<and> np_pos (grid_size (city (after_reset G e seed loc)))
          (agent_location_vid (after_reset G e seed loc)) = Inl IndexError
    \<and> agent_location_vector (after_reset G e seed loc)
        = replicate (grid_size (city (after_reset G e seed loc))) 0)
   \<and> (step e a = Inl IndexError \<and> - 8 \<le> a \<and> a < 8 \<longrightarrow>
      agent_location_vid (after_step e a)
        = grid_to_vector (city (after_step e a)) (agent_location (after_step e a))
    \<and> np_pos (grid_size (city (after_step e a))) (agent_location_vid (after_step e a))
        = Inl IndexError
    \<and> agent_location_vector (after_step e a)
        = replicate (grid_size (city (after_step e a))) 0)"
  (is "(?H1 \<longrightarrow> ?C1) \<and> (?H2 \<longrightarrow> ?C2) \<and> (?H3 \<longrightarrow> ?C3)")
proof -
  have c1: ?C1 if ret: ?H1
  proof -
    from ret obtain j where
      j: "np_pos (grid_size (city e')) (agent_location_vid e') = Inr j"
      and vec: "agent_location_vector e' = (replicate (grid_size (city e')) 0)[j := 1]"
      and vid: "agent_location_vid e' = grid_to_vector (city e') (agent_location e')"
      and obs: "obs = get_obs e'"
    proof
      assume "reset G e seed loc = Inr (e', obs, info)"
      then show ?thesis
        by (cases rule: reset_InrE) (rule that, simp_all)
    next
      assume "step e a = Inr (e', obs, rw, terminated, truncated, info)"
      then show ?thesis
        by (cases rule: step_InrE) (rule that, simp_all)
    qed
    from one_hot_views [OF j vec] np_pos_Inr(1) [OF j] vid obs j
    show ?thesis by blast
  qed
  have c2: ?C2 if ?H2
    using reset_IndexError [OF that] by auto
  have c3: ?C3 if ?H3
  proof -
    from that have "step e a = Inl IndexError" "- 8 \<le> a" "a < 8" by simp_all
    from step_IndexError [OF this] show ?thesis by auto
  qed
  from c1 c2 c3 show ?thesis by blast
qed

theorem location_views_consistent_witness:
  "(\<exists>e' obs info.
       step demo_start 2
         = Inr (e', obs, [Fin (3602879701896397 / 9007199254740992), Fin (1 / 2)],
                False, False, info)
     \<and> agent_location_vid e' = grid_to_vector (city e') (agent_location e')
     \<and> length (agent_location_vector e') = grid_size (city e')
     \<and> np_getitem (agent_location_vector e') (agent_location_vid e') = Inr 1
     \<and> sum_list (agent_location_vector e') = 1)
   \<and> step demo_corner 4 = Inl IndexError
   \<and> agent_location_vid (after_step demo_corner 4)
        = grid_to_vector (city (after_step demo_corner 4))
            (agent_location (after_step demo_corner 4))
   \<and> agent_location_vector (after_step demo_corner 4)
        = replicate (grid_size (city (after_step demo_corner 4))) 0"
proof -
  from demo_step_right obtain e' obs info where
    s: "step demo_start 2
          = Inr (e', obs, [Fin (3602879701896397 / 9007199254740992), Fin (1 / 2)],
                 False, False, info)"
    by blast
  have r: "step demo_corner 4 = Inl IndexError \<and> - 8 \<le> (4::int) \<and> (4::int) < 8"
    using demo_corner_step_down by simp
  from location_views_consistent
    [of demo_rng demo_start None PyNone e' obs info 2
        "[Fin (3602879701896397 / 9007199254740992), Fin (1 / 2)]" False False]
    location_views_consistent
    [of demo_rng demo_corner None PyNone e' obs info 4
        "[Fin (3602879701896397 / 9007199254740992), Fin (1 / 2)]" False False]
    s r
  show ?thesis by blast
qed

theorem location_views_consistent_counterexample:
  "reset demo_rng (init demo_city 4 0) None (PyTuple (1, 1))
     = Inr (demo_corner, get_obs demo_corner, get_info demo_corner)
   \<and> step demo_corner 4 = Inl IndexError
   \<and> after_step demo_corner 4 = demo_fallen
   \<and> agent_location demo_fallen = (2, 1)
   \<and> agent_location_vid demo_fallen = 5
   \<and> agent_location_vector demo_fallen = [0, 0, 0, 0]
   \<and> sum_list (agent_location_vector demo_fallen) \<noteq> 1"
  using demo_corner_reset demo_corner_step_down by (simp add: demo_fallen_def)

subsection \<open>Covered cells along an episode\<close>

lemma episode_Cons_Inr:
  assumes "episode e (a # as) = Inr es"
  obtains e1 obs rw terminated truncated info es1 where
    "step e a = Inr (e1, obs, rw, terminated, truncated, info)"
    "episode e1 as = Inr es1" "es = e # es1"
proof -
  from assms obtain r where r: "step e a = Inr r"
    by (cases "step e a") simp_all
  with assms obtain es1 where es1: "episode (fst r) as = Inr es1" "es = e # es1"
    by (cases "episode (fst r) as") auto
  obtain e1 obs rw terminated truncated info
    where "r = (e1, obs, rw, terminated, truncated, info)"
    by (cases r) 
  with r es1 that show thesis by simp
qed

lemma episode_hd:
  assumes "episode e as = Inr es"
  shows "es \<noteq> [] \<and> hd es = e \<and> length es = Suc (length as)"
  using assms
proof (induction as arbitrary: e es)
  case Nil
  then show ?case by auto
next
  case (Cons a as)
  from Cons.prems show ?case
  proof (cases rule: episode_Cons_Inr)
    case (1 e1 obs rw terminated truncated info es1)
    with Cons.IH [OF 1(2)] show ?thesis by simp
  qed
qed

lemma episode_take:
  assumes "episode e as = Inr es"
  shows "episode e (take k as) = Inr (take (Suc k) es)"
  using assms
proof (induction as arbitrary: e es k)
  case Nil
  then show ?case by auto
next
  case (Cons a as)
  from Cons.prems show ?case
  proof (cases rule: episode_Cons_Inr)
    case (1 e1 obs rw terminated truncated info es1)
    show ?thesis
    proof (cases k)
      case 0
      then show ?thesis using 1 by simp
    next
      case (Suc k')
      from Cons.IH [OF 1(2), of k'] 1 Suc show ?thesis by simp
    qed
  qed
qed

lemma legal_actions_take:
  assumes "legal_actions e as"
  shows "legal_actions e (take k as)"
  using assms
proof (induction as arbitrary: e k)
  case Nil
  then show ?case by simp
next
  case (Cons a as)
  show ?case
  proof (cases k)
    case 0
    then show ?thesis by simp
  next
    case (Suc k')
    with Cons show ?thesis by (auto split: sum.splits)
  qed
qed

text \<open>A legal action leads to a cell whose index is not yet covered.\<close>

lemma legal_target_fresh:
  assumes leg: "legal e a"
    and mask: "action_mask e = action_mask (update_action_mask e (agent_location e) None)"
    and d: "np_getitem action_to_direction a = Inr d"
  shows "grid_to_vector (city e)
           (fst (agent_location e) + fst d, snd (agent_location e) + snd d)
         \<notin> set (covered_cells_vid e)"
proof -
  have len: "length (action_mask e) = 8"
    by (subst mask) (rule length_action_mask_update)
  from d obtain k where k: "np_pos 8 a = Inr k" and dk: "d = action_to_direction ! k"
    by (auto simp add: np_getitem_def length_action_to_direction split: sum.splits)
  have k8: "k < 8" using np_pos_Inr(1) [OF k] .
  from leg k have "action_mask e ! k = 1"
    by (simp add: legal_def np_getitem_def len)
  then have "action_mask (update_action_mask e (agent_location e) None) ! k = 1"
    using mask by simp
  then show ?thesis
    unfolding action_mask_update_nth [OF k8] dk
    by (simp split: if_splits)
qed

lemma episode_covered_cells:
  assumes "episode e as = Inr es" and "legal_actions e as"
    and "distinct (covered_cells_vid e)"
    and "covered_cells_vid e = map (grid_to_vector (city e)) (covered_cells_gid e)"
    and "action_mask e = action_mask (update_action_mask e (agent_location e) None)"
  shows "city (last es) = city e
    \<and> distinct (covered_cells_vid (last es))
    \<and> covered_cells_vid (last es) = map (grid_to_vector (city e)) (covered_cells_gid (last es))
    \<and> covered_cells_gid (last es) = covered_cells_gid e @ map agent_location (tl es)
    \<and> covered_cells_vid (last es) = covered_cells_vid e @ map agent_location_vid (tl es)"
  using assms
proof (induction as arbitrary: e es)
  case Nil
  then show ?case by auto
next
  case (Cons a as)
  from Cons.prems(1) show ?case
  proof (cases rule: episode_Cons_Inr)
    case (1 e1 obs rw terminated truncated info es1)
    from Cons.prems(2) 1(1) have leg: "legal e a" and legs: "legal_actions e1 as"
      by simp_all
    from 1(1) have "agent_location_vid e1 \<notin> set (covered_cells_vid e)
      \<and> city e1 = city e
      \<and> covered_cells_vid e1 = covered_cells_vid e @ [agent_location_vid e1]
      \<and> covered_cells_gid e1 = covered_cells_gid e @ [agent_location e1]
      \<and> agent_location_vid e1 = grid_to_vector (city e) (agent_location e1)
      \<and> action_mask e1 = action_mask (update_action_mask e1 (agent_location e1) None)"
    proof (cases rule: step_InrE)
      case (step d j nl)
      from legal_target_fresh [OF leg Cons.prems(5) step(1)] step(2)
      have "grid_to_vector (city e) nl \<notin> set (covered_cells_vid e)" by simp
      moreover have "action_mask e1 = action_mask (update_action_mask e1 (agent_location e1) None)"
        using step(15) by (simp add: step(11))
      ultimately show ?thesis
        by (simp add: step(5) step(9) step(10) step(11) step(12))
    qed
    then have
      fresh: "agent_location_vid e1 \<notin> set (covered_cells_vid e)"
      and c1: "city e1 = city e"
      and cv1: "covered_cells_vid e1 = covered_cells_vid e @ [agent_location_vid e1]"
      and cg1: "covered_cells_gid e1 = covered_cells_gid e @ [agent_location e1]"
      and vid1: "agent_location_vid e1 = grid_to_vector (city e) (agent_location e1)"
      and m1: "action_mask e1 = action_mask (update_action_mask e1 (agent_location e1) None)"
      by blast+
    have d1: "distinct (covered_cells_vid e1)"
      using Cons.prems(3) fresh by (simp add: cv1)
    have v1: "covered_cells_vid e1 = map (grid_to_vector (city e1)) (covered_cells_gid e1)"
      using Cons.prems(4) by (simp add: cv1 cg1 c1 vid1)
    note ih = Cons.IH [OF 1(2) legs d1 v1 m1]
    from episode_hd [OF 1(2)] have es1: "es1 = e1 # tl es1" by (cases es1) simp_all
    have l: "last es = last es1" using es1 1(3) by (metis last_ConsR list.distinct(1))
    have t: "tl es = e1 # tl es1" using es1 1(3) by simp
    from ih have i1: "city (last es1) = city e1"
      and i2: "distinct (covered_cells_vid (last es1))"
      and i3: "covered_cells_vid (last es1)
                 = map (grid_to_vector (city e1)) (covered_cells_gid (last es1))"
      and i4: "covered_cells_gid (last es1) = covered_cells_gid e1 @ map agent_location (tl es1)"
      and i5: "covered_cells_vid (last es1)
                 = covered_cells_vid e1 @ map agent_location_vid (tl es1)"
      by blast+
    have "covered_cells_gid (last es1)
            = covered_cells_gid e @ map agent_location (e1 # tl es1)"
      by (simp add: i4 cg1)
    moreover have "covered_cells_vid (last es1)
            = covered_cells_vid e @ map agent_location_vid (e1 # tl es1)"
      by (simp add: i5 cv1)
    moreover have "covered_cells_vid (last es1)
            = map (grid_to_vector (city e)) (covered_cells_gid (last es1))"
      using i3 by (simp only: c1)
    moreover have "city (last es1) = city e" using i1 by (simp only: c1)
    ultimately show ?thesis
      unfolding l t using i2 by blast
  qed
qed

lemma demo_episode:
  "\<exists>e2 e3. episode demo_start [2, 4, 6] = Inr [demo_start, demo_second, e2, e3]
      \<and> legal_actions demo_start [2, 4, 6]
      \<and> covered_cells_gid e3 = [(0, 0), (0, 1), (1, 1), (1, 0)]
      \<and> covered_cells_vid e3 = [0, 1, 3, 2]"
  by (simp add: demo_defs model_defs numeral_eq_Suc)

text \<open>
  Claim C7. Take an episode that starts with a returning \<open>reset\<close> and continues with
  actions each of which is legal under the mask current when it is supplied. After
  \<open>reset\<close> and after every \<open>step\<close> of it (the state number \<open>k\<close>), neither
  \<open>covered_cells_vid\<close> nor \<open>covered_cells_gid\<close> contains a duplicate, and they list the
  linear indices and the coordinates of the cells the agent has been at, in the order
  of the visits.
\<close>

theorem covered_cells_distinct_ordered:
  assumes "reset G e seed loc = Inr (e0, obs, info)"
    and "legal_actions e0 as" and "episode e0 as = Inr es" and "k < length es"
  shows "distinct (covered_cells_vid (es ! k))
    \<and> distinct (covered_cells_gid (es ! k))
    \<and> covered_cells_gid (es ! k) = map agent_location (take (Suc k) es)
    \<and> covered_cells_vid (es ! k) = map agent_location_vid (take (Suc k) es)"
proof -
  let ?es = "take (Suc k) es"
  have ep: "episode e0 (take k as) = Inr ?es" by (rule episode_take [OF assms(3)])
  have leg: "legal_actions e0 (take k as)" by (rule legal_actions_take [OF assms(2)])
  have last: "last ?es = es ! k"
    using assms(4) by (simp add: take_Suc_conv_app_nth)
  from episode_hd [OF ep] obtain rest where hd: "?es = e0 # rest" by (cases ?es) simp_all
  from assms(1) have
    "distinct (covered_cells_vid e0)
     \<and> covered_cells_vid e0 = map (grid_to_vector (city e0)) (covered_cells_gid e0)
     \<and> action_mask e0 = action_mask (update_action_mask e0 (agent_location e0) None)
     \<and> covered_cells_gid e0 = [agent_location e0]
     \<and> covered_cells_vid e0 = [agent_location_vid e0]"
    by (cases rule: reset_InrE) simp
  then have d0: "distinct (covered_cells_vid e0)"
    and v0: "covered_cells_vid e0 = map (grid_to_vector (city e0)) (covered_cells_gid e0)"
    and m0: "action_mask e0 = action_mask (update_action_mask e0 (agent_location e0) None)"
    and g0: "covered_cells_gid e0 = [agent_location e0]"
    and i0: "covered_cells_vid e0 = [agent_location_vid e0]"
    by blast+
  from episode_covered_cells [OF ep leg d0 v0 m0]
  have d: "distinct (covered_cells_vid (es ! k))"
    and v: "covered_cells_vid (es ! k)
              = map (grid_to_vector (city e0)) (covered_cells_gid (es ! k))"
    and g: "covered_cells_gid (es ! k) = covered_cells_gid e0 @ map agent_location (tl ?es)"
    and i: "covered_cells_vid (es ! k) = covered_cells_vid e0 @ map agent_location_vid (tl ?es)"
    unfolding last by blast+
  have "distinct (covered_cells_gid (es ! k))"
    using d unfolding v by (simp add: distinct_map)
  moreover have "covered_cells_gid (es ! k) = map agent_location ?es"
    unfolding g g0 hd by simp
  moreover have "covered_cells_vid (es ! k) = map agent_location_vid ?es"
    unfolding i i0 hd by simp
  ultimately show ?thesis using d by blast
qed

theorem covered_cells_distinct_ordered_witness:
  "\<exists>e2 e3. episode demo_start [2, 4, 6] = Inr [demo_start, demo_second, e2, e3]
      \<and> legal_actions demo_start [2, 4, 6]
      \<and> covered_cells_gid e3 = [(0, 0), (0, 1), (1, 1), (1, 0)]
      \<and> covered_cells_vid e3 = [0, 1, 3, 2]
      \<and> distinct (covered_cells_vid e3) \<and> distinct (covered_cells_gid e3)
      \<and> covered_cells_gid e3 = map agent_location [demo_start, demo_second, e2, e3]
      \<and> covered_cells_vid e3 = map agent_location_vid [demo_start, demo_second, e2, e3]"
proof -
  from demo_episode obtain e2 e3 where
    ep: "episode demo_start [2, 4, 6] = Inr [demo_start, demo_second, e2, e3]"
    and leg: "legal_actions demo_start [2, 4, 6]"
    and cells: "covered_cells_gid e3 = [(0, 0), (0, 1), (1, 1), (1, 0)]"
      "covered_cells_vid e3 = [0, 1, 3, 2]"
    by blast
  have k: "3 < length [demo_start, demo_second, e2, e3]" by simp
  have n: "[demo_start, demo_second, e2, e3] ! 3 = e3"
    and t: "take (Suc 3) [demo_start, demo_second, e2, e3] = [demo_start, demo_second, e2, e3]"
    by (simp_all add: numeral_3_eq_3)
  from covered_cells_distinct_ordered [OF demo_reset leg ep k, unfolded n t] ep leg cells
  show ?thesis by blast
qed

subsection \<open>Seeded resets\<close>

text \<open>
  Claim C10. Two calls \<open>reset(seed=s)\<close> without a start location, on environments with
  the same city and the same station budget, give the same result whatever else the
  two environments hold: the same error, or the same state, observation and info.
\<close>

theorem reset_seed_deterministic:
  assumes "city e1 = city e2" and "nr_stations e1 = nr_stations e2"
  shows "reset G e1 (Some s) PyNone = reset G e2 (Some s) PyNone"
proof -
  obtain c n sp cv cg cs am al av avec g where
    e1: "e1 = \<lparr>city = c, nr_stations = n, stations_placed = sp, covered_cells_vid = cv,
      covered_cells_gid = cg, covered_segments = cs, action_mask = am,
      agent_location = al, agent_location_vid = av, agent_location_vector = avec,
      np_random = g\<rparr>"
    by (cases e1) auto
  obtain c' n' sp' cv' cg' cs' am' al' av' avec' g' where
    e2: "e2 = \<lparr>city = c', nr_stations = n', stations_placed = sp', covered_cells_vid = cv',
      covered_cells_gid = cg', covered_segments = cs', action_mask = am',
      agent_location = al', agent_location_vid = av', agent_location_vector = avec',
      np_random = g'\<rparr>"
    by (cases e2) auto
  from assms have same: "c' = c" "n' = n" by (simp_all add: e1 e2)
  show ?thesis
    unfolding e1 e2 same
    by (simp add: reset_def reset_call_def reset_tail_def update_agent_location_def
        update_action_mask_def observation_space_n_def get_obs_def get_info_def Let_def
        split: prod.splits sum.splits)
qed

theorem reset_seed_deterministic_witness:
  "reset demo_rng demo_second (Some 3) PyNone
     = reset demo_rng (init demo_city 4 7) (Some 3) PyNone
   \<and> (\<exists>e' info. reset demo_rng demo_second (Some 3) PyNone
          = Inr (e', \<lparr>location = (1, 0), location_vid = 2, location_vector = [0, 0, 1, 0]\<rparr>,
                 info))"
proof -
  have "city demo_second = city (init demo_city 4 7)"
    "nr_stations demo_second = nr_stations (init demo_city 4 7 :: nat MOTNDP)"
    by (simp_all add: demo_second_def init_def)
  from reset_seed_deterministic [OF this, of demo_rng 3]
  have "reset demo_rng demo_second (Some 3) PyNone
     = reset demo_rng (init demo_city 4 7) (Some 3) PyNone" .
  moreover have "\<exists>e' info. reset demo_rng demo_second (Some 3) PyNone
          = Inr (e', \<lparr>location = (1, 0), location_vid = 2, location_vector = [0, 0, 1, 0]\<rparr>,
                 info)"
    by (simp add: demo_defs model_defs numeral_eq_Suc)
  ultimately show ?thesis by blast
qed

end
